theory Spec2Isabelle
  imports Main
begin

section \<open>JavaScript values that cross the message boundary\<close>

text \<open>
  Requests reach the extension as JSON-like values. A number is kept as the text that
  \<^verbatim>\<open>String\<close> gives for it (\<open>JNum ''5''\<close>, \<open>JNum ''1.5''\<close>, \<open>JNum ''1e+21''\<close>):
  every number that JSON carries has exactly one such text, and the program uses a number
  in no other way. A character of a \<^typ>\<open>string\<close> stands for one UTF-16 code unit
  below 256. An object is the list of its own properties, all of them data; the first
  binding of a key counts.
\<close>

datatype jsval =
    JUndefined
  | JNull
  | JBool bool
  | JNum string
  | JStr string
  | JArr "jsval list"
  | JObj "(string \<times> jsval) list"

text \<open>
  Decimal rendering of a count (the length of an array, a loop counter), as a template
  literal gives it.
\<close>

fun digit_char :: "nat \<Rightarrow> char" where
  "digit_char n = char_of (48 + n mod 10)"

fun nat_to_string :: "nat \<Rightarrow> string" where
  "nat_to_string n = (if n < 10 then [digit_char n] else nat_to_string (n div 10) @ [digit_char n])"

text \<open>\<^verbatim>\<open>Array.prototype.join\<close> on strings that are already rendered.\<close>

fun js_join :: "string \<Rightarrow> string list \<Rightarrow> string" where
  "js_join sep [] = []"
| "js_join sep [s] = s"
| "js_join sep (s # t # ss) = s @ sep @ js_join sep (t # ss)"

text \<open>Evaluating a list of steps from left to right: the first error ends it.\<close>

fun collect :: "(string + 'a) list \<Rightarrow> string + 'a list" where
  "collect [] = Inr []"
| "collect (r # rs) =
     (case r of
        Inl msg \<Rightarrow> Inl msg
      | Inr v \<Rightarrow> (case collect rs of Inl msg \<Rightarrow> Inl msg | Inr vs \<Rightarrow> Inr (v # vs)))"

definition cannot_convert_message :: string where
  "cannot_convert_message = ''Cannot convert object to primitive value''"

text \<open>
  \<^verbatim>\<open>String(v)\<close>: the text, or the message of the TypeError it throws. An array
  renders its elements joined by a comma, with \<^verbatim>\<open>null\<close> and \<^verbatim>\<open>undefined\<close>
  elements rendered empty, and throws where an element does. A plain object renders as
  \<^verbatim>\<open>[object Object]\<close> through the inherited \<^verbatim>\<open>toString\<close>; when it has an own
  property \<^verbatim>\<open>toString\<close>, that property is data and cannot be called, neither its
  own nor the inherited \<^verbatim>\<open>valueOf\<close> yields a primitive, and the conversion throws.
\<close>

fun js_String :: "jsval \<Rightarrow> string + string" where
  "js_String JUndefined = Inr ''undefined''"
| "js_String JNull = Inr ''null''"
| "js_String (JBool b) = Inr (if b then ''true'' else ''false'')"
| "js_String (JNum n) = Inr n"
| "js_String (JStr s) = Inr s"
| "js_String (JArr xs) =
     (case collect (map (\<lambda>x. if x = JNull \<or> x = JUndefined then Inr [] else js_String x) xs) of
        Inl msg \<Rightarrow> Inl msg
      | Inr ss \<Rightarrow> Inr (js_join '','' ss))"
| "js_String (JObj kvs) =
     (if map_of kvs ''toString'' = None then Inr ''[object Object]'' else Inl cannot_convert_message)"

text \<open>
  Property read \<^verbatim>\<open>v.name\<close> for a name that no built-in prototype defines, as are
  the four names the program reads (\<^verbatim>\<open>action\<close>, \<^verbatim>\<open>bookmarkIds\<close>, \<^verbatim>\<open>urls\<close>,
  \<^verbatim>\<open>id\<close>): reading from \<^verbatim>\<open>null\<close> or \<^verbatim>\<open>undefined\<close> throws, an object
  yields its own property, everything else yields \<^verbatim>\<open>undefined\<close>.
\<close>

definition cannot_read_message :: "string \<Rightarrow> string \<Rightarrow> string" where
  "cannot_read_message v name =
     ''Cannot read properties of '' @ v @ '' (reading '' @ [CHR 0x27] @ name @ [CHR 0x27] @ '')''"

fun get_prop :: "jsval \<Rightarrow> string \<Rightarrow> string + jsval" where
  "get_prop JUndefined name = Inl (cannot_read_message ''undefined'' name)"
| "get_prop JNull name = Inl (cannot_read_message ''null'' name)"
| "get_prop (JObj kvs) name = (case map_of kvs name of Some v \<Rightarrow> Inr v | None \<Rightarrow> Inr JUndefined)"
| "get_prop v name = Inr JUndefined"

text \<open>
  The values a \<^verbatim>\<open>for (... of v)\<close> loop visits: the elements of an array, the
  characters of a string; every other value of this type is not iterable and the loop
  throws a TypeError before its first iteration.
\<close>

definition not_iterable_message :: "string \<Rightarrow> string" where
  "not_iterable_message name = name @ '' is not iterable''"

fun js_iterate :: "jsval \<Rightarrow> jsval list option" where
  "js_iterate (JArr xs) = Some xs"
| "js_iterate (JStr s) = Some (map (\<lambda>c. JStr [c]) s)"
| "js_iterate v = None"

section \<open>The native bookmark store\<close>

text \<open>
  The store is an external collaborator: its two primitives are parameters. A call is a
  promise that is fulfilled, rejected with an \<^verbatim>\<open>Error\<close> whose \<^verbatim>\<open>message\<close> is
  given (an error thrown by the call itself counts as a rejection: both reach the same
  \<^verbatim>\<open>catch\<close>), or never settled.
\<close>

datatype 'a settled = Fulfilled 'a | Rejected string | Never

record node =
  node_id :: string
  node_parentId :: "string option"
  node_index :: "nat option"
  node_url :: "string option"
  node_title :: string
  node_dateAdded :: "nat option"

record 'st bookmarks_api =
  bookmarks_remove :: "string \<Rightarrow> 'st \<Rightarrow> unit settled \<times> 'st"
  bookmarks_search :: "jsval \<Rightarrow> 'st \<Rightarrow> node list settled \<times> 'st"

datatype call = Remove string | Search jsval

datatype event = Issued call | Settled call "string option"

text \<open>
  The world a handler runs in: the state of the store and the log of store calls.
  \<open>Issued c\<close> is logged when a call starts, \<open>Settled c None\<close> when it is fulfilled and
  \<open>Settled c (Some msg)\<close> when it is rejected.
\<close>

record 'st world =
  store :: 'st
  calls :: "event list"

definition settle_events :: "call \<Rightarrow> 'a settled \<Rightarrow> event list" where
  "settle_events c out =
     (case out of
        Fulfilled v \<Rightarrow> [Issued c, Settled c None]
      | Rejected msg \<Rightarrow> [Issued c, Settled c (Some msg)]
      | Never \<Rightarrow> [Issued c])"

text \<open>\<^verbatim>\<open>await chrome.bookmarks.remove(idStr)\<close>\<close>

definition await_remove :: "'st bookmarks_api \<Rightarrow> string \<Rightarrow> 'st world \<Rightarrow> unit settled \<times> 'st world" where
  "await_remove api idStr w =
     (case bookmarks_remove api idStr (store w) of
        (out, s') \<Rightarrow> (out, \<lparr>store = s', calls = calls w @ settle_events (Remove idStr) out\<rparr>))"

text \<open>\<^verbatim>\<open>await chrome.bookmarks.search({ url })\<close>\<close>

definition await_search :: "'st bookmarks_api \<Rightarrow> jsval \<Rightarrow> 'st world \<Rightarrow> node list settled \<times> 'st world" where
  "await_search api url w =
     (case bookmarks_search api url (store w) of
        (out, s') \<Rightarrow> (out, \<lparr>store = s', calls = calls w @ settle_events (Search url) out\<rparr>))"

section \<open>Batch mutator and lookup resolver (background.js)\<close>

text \<open>
  The outcome of an \<^verbatim>\<open>async\<close> function: it returns a value, throws an error (carrying
  its message), or never finishes because it awaits a call that never settles.
\<close>

datatype 'a run = Returned 'a | Threw string | Stalled

record del_result =
  dr_id :: string
  dr_success :: bool
  dr_error :: "string option"

text \<open>
  The loop of \<^verbatim>\<open>deleteBookmarks\<close> over the items that remain. \<^verbatim>\<open>String(id)\<close>
  is evaluated inside the \<^verbatim>\<open>try\<close> (line 53) and once more inside the
  \<^verbatim>\<open>catch\<close> (line 57): an error of the first lands in the \<^verbatim>\<open>catch\<close>, an error
  of the second leaves the loop and the function throws.
\<close>

fun deleteBookmarks_loop ::
  "'st bookmarks_api \<Rightarrow> jsval list \<Rightarrow> del_result list \<Rightarrow> 'st world \<Rightarrow> del_result list run \<times> 'st world" where
  "deleteBookmarks_loop api [] results w = (Returned results, w)"
| "deleteBookmarks_loop api (bid # rest) results w =
     (case js_String bid of
        Inr idStr \<Rightarrow>
          (case await_remove api idStr w of
             (Fulfilled u, w') \<Rightarrow>
               deleteBookmarks_loop api rest
                 (results @ [\<lparr>dr_id = idStr, dr_success = True, dr_error = None\<rparr>]) w'
           | (Rejected msg, w') \<Rightarrow>
               (case js_String bid of
                  Inr s \<Rightarrow>
                    deleteBookmarks_loop api rest
                      (results @ [\<lparr>dr_id = s, dr_success = False, dr_error = Some msg\<rparr>]) w'
                | Inl msg' \<Rightarrow> (Threw msg', w'))
           | (Never, w') \<Rightarrow> (Stalled, w'))
      | Inl msg \<Rightarrow>
          (case js_String bid of
             Inr s \<Rightarrow>
               deleteBookmarks_loop api rest
                 (results @ [\<lparr>dr_id = s, dr_success = False, dr_error = Some msg\<rparr>]) w
           | Inl msg' \<Rightarrow> (Threw msg', w)))"

definition deleteBookmarks ::
  "'st bookmarks_api \<Rightarrow> jsval \<Rightarrow> 'st world \<Rightarrow> del_result list run \<times> 'st world" where
  "deleteBookmarks api bookmarkIds w =
     (case js_iterate bookmarkIds of
        None \<Rightarrow> (Threw (not_iterable_message ''bookmarkIds''), w)
      | Some items \<Rightarrow> deleteBookmarks_loop api items [] w)"

record match =
  m_id :: string
  m_title :: string
  m_url :: "string option"
  m_parentId :: "string option"

record find_result =
  fr_url :: jsval
  fr_bookmarks :: "match list"
  fr_error :: "string option"

text \<open>\<^verbatim>\<open>b => ({ id: b.id, title: b.title, url: b.url, parentId: b.parentId })\<close>\<close>

definition to_match :: "node \<Rightarrow> match" where
  "to_match b = \<lparr>m_id = node_id b, m_title = node_title b, m_url = node_url b, m_parentId = node_parentId b\<rparr>"

fun findBookmarksByUrl_loop ::
  "'st bookmarks_api \<Rightarrow> jsval list \<Rightarrow> find_result list \<Rightarrow> 'st world \<Rightarrow> find_result list run \<times> 'st world" where
  "findBookmarksByUrl_loop api [] results w = (Returned results, w)"
| "findBookmarksByUrl_loop api (url # rest) results w =
     (case await_search api url w of
        (Fulfilled bookmarks, w') \<Rightarrow>
          findBookmarksByUrl_loop api rest
            (results @ [\<lparr>fr_url = url, fr_bookmarks = map to_match bookmarks, fr_error = None\<rparr>]) w'
      | (Rejected msg, w') \<Rightarrow>
          findBookmarksByUrl_loop api rest
            (results @ [\<lparr>fr_url = url, fr_bookmarks = [], fr_error = Some msg\<rparr>]) w'
      | (Never, w') \<Rightarrow> (Stalled, w'))"

definition findBookmarksByUrl ::
  "'st bookmarks_api \<Rightarrow> jsval \<Rightarrow> 'st world \<Rightarrow> find_result list run \<times> 'st world" where
  "findBookmarksByUrl api urls w =
     (case js_iterate urls of
        None \<Rightarrow> (Threw (not_iterable_message ''urls''), w)
      | Some items \<Rightarrow> findBookmarksByUrl_loop api items [] w)"

section \<open>Message router (background.js)\<close>

datatype results = DeleteResults "del_result list" | FindResults "find_result list"

record response =
  r_success :: bool
  r_results :: "results option"
  r_error :: "string option"
  r_message :: "string option"

definition success_response :: "results \<Rightarrow> response" where
  "success_response rs = \<lparr>r_success = True, r_results = Some rs, r_error = None, r_message = None\<rparr>"

definition failure_response :: "string \<Rightarrow> response" where
  "failure_response msg = \<lparr>r_success = False, r_results = None, r_error = Some msg, r_message = None\<rparr>"

definition ping_response :: response where
  "ping_response = \<lparr>r_success = True, r_results = None, r_error = None, r_message = Some ''Extension is active''\<rparr>"

text \<open>
  \<^verbatim>\<open>.then(results => send({ success: true, results }))
   .catch(error => send({ success: false, error: error.message }))\<close>
  and, on a port, the \<^verbatim>\<open>try\<close>/\<^verbatim>\<open>catch\<close> around the awaited call: the responses
  sent once the batch has finished. A batch that never finishes sends nothing.
  Sending itself is taken not to throw.
\<close>

definition respond :: "('a \<Rightarrow> results) \<Rightarrow> 'a run \<Rightarrow> response list" where
  "respond wrap r =
     (case r of
        Returned rs \<Rightarrow> [success_response (wrap rs)]
      | Threw msg \<Rightarrow> [failure_response msg]
      | Stalled \<Rightarrow> [])"

text \<open>What the one-shot listener returns to the transport.\<close>

datatype listener_return = ReturnedTrue | ReturnedUndefined | ListenerThrew string

record exchange =
  sent :: "response list"
  returned :: listener_return

text \<open>The listener of \<^verbatim>\<open>chrome.runtime.onMessageExternal\<close>.\<close>

definition onMessageExternal :: "'st bookmarks_api \<Rightarrow> jsval \<Rightarrow> 'st world \<Rightarrow> exchange \<times> 'st world" where
  "onMessageExternal api request w =
     (case get_prop request ''action'' of
        Inl msg \<Rightarrow> (\<lparr>sent = [], returned = ListenerThrew msg\<rparr>, w)
      | Inr action \<Rightarrow>
          if action = JStr ''deleteBookmarks'' then
            (case get_prop request ''bookmarkIds'' of
               Inl msg \<Rightarrow> (\<lparr>sent = [], returned = ListenerThrew msg\<rparr>, w)
             | Inr bookmarkIds \<Rightarrow>
                 (case deleteBookmarks api bookmarkIds w of
                    (r, w') \<Rightarrow> (\<lparr>sent = respond DeleteResults r, returned = ReturnedTrue\<rparr>, w')))
          else if action = JStr ''ping'' then
            (\<lparr>sent = [ping_response], returned = ReturnedTrue\<rparr>, w)
          else if action = JStr ''findBookmarksByUrl'' then
            (case get_prop request ''urls'' of
               Inl msg \<Rightarrow> (\<lparr>sent = [], returned = ListenerThrew msg\<rparr>, w)
             | Inr urls \<Rightarrow>
                 (case findBookmarksByUrl api urls w of
                    (r, w') \<Rightarrow> (\<lparr>sent = respond FindResults r, returned = ReturnedTrue\<rparr>, w')))
          else (\<lparr>sent = [], returned = ReturnedUndefined\<rparr>, w))"

text \<open>
  The \<^verbatim>\<open>port.onMessage\<close> listener that \<^verbatim>\<open>chrome.runtime.onConnectExternal\<close>
  installs on every port: the messages posted on the port for one inbound message.
  The listener is \<^verbatim>\<open>async\<close>: an error outside its \<^verbatim>\<open>try\<close> rejects its promise
  and posts nothing.
\<close>

definition port_onMessage :: "'st bookmarks_api \<Rightarrow> jsval \<Rightarrow> 'st world \<Rightarrow> response list \<times> 'st world" where
  "port_onMessage api message w =
     (case get_prop message ''action'' of
        Inl msg \<Rightarrow> ([], w)
      | Inr action \<Rightarrow>
          if action = JStr ''deleteBookmarks'' then
            (case get_prop message ''bookmarkIds'' of
               Inl msg \<Rightarrow> ([failure_response msg], w)
             | Inr bookmarkIds \<Rightarrow>
                 (case deleteBookmarks api bookmarkIds w of
                    (r, w') \<Rightarrow> (respond DeleteResults r, w')))
          else ([], w))"

section \<open>Manual UI driver (the extension page's script)\<close>

subsection \<open>String helpers\<close>

definition newline :: char where
  "newline = CHR 0x0A"

text \<open>
  The characters \<^verbatim>\<open>trim()\<close> strips, among the code units below 256: tab, line
  feed, vertical tab, form feed, carriage return, space and no-break space.
\<close>

definition is_whitespace :: "char \<Rightarrow> bool" where
  "is_whitespace c = ((of_char c :: nat) \<in> {9, 10, 11, 12, 13, 32, 160})"

definition trim :: "string \<Rightarrow> string" where
  "trim s = rev (dropWhile is_whitespace (rev (dropWhile is_whitespace s)))"

text \<open>\<^verbatim>\<open>s.split(sep)\<close> for a one-character separator: always at least one piece.\<close>

fun js_split :: "char \<Rightarrow> string \<Rightarrow> string list" where
  "js_split sep [] = [[]]"
| "js_split sep (c # cs) =
     (if c = sep then [] # js_split sep cs
      else (case js_split sep cs of
              [] \<Rightarrow> [[c]]
            | l # ls \<Rightarrow> (c # l) # ls))"

fun startsWith :: "string \<Rightarrow> string \<Rightarrow> bool" where
  "startsWith s [] = True"
| "startsWith [] (p # ps) = False"
| "startsWith (c # cs) (p # ps) = (c = p \<and> startsWith cs ps)"

text \<open>\<^verbatim>\<open>typeof v === 'object'\<close>: true of objects, of arrays and of \<^verbatim>\<open>null\<close>.\<close>

fun typeof_object :: "jsval \<Rightarrow> bool" where
  "typeof_object JNull = True"
| "typeof_object (JArr xs) = True"
| "typeof_object (JObj kvs) = True"
| "typeof_object v = False"

text \<open>
  \<^verbatim>\<open>xs.join(sep)\<close> on an array of values: the text, or the message of the TypeError
  that converting an element throws.
\<close>

definition array_join :: "string \<Rightarrow> jsval list \<Rightarrow> string + string" where
  "array_join sep xs =
     (case collect (map (\<lambda>x. if x = JNull \<or> x = JUndefined then Inr [] else js_String x) xs) of
        Inl msg \<Rightarrow> Inl msg
      | Inr ss \<Rightarrow> Inr (js_join sep ss))"

subsection \<open>The page\<close>

text \<open>
  The part of the page the script reads and writes: the text field, the
  \<^verbatim>\<open>disabled\<close> flag of the five controls, the count line, the progress text, the
  result log and the alerts shown. The text field gives back the text that was stored
  in it. The width of the progress bar is a floating-point percentage and is left out.
  Each line of the result log is kept as the pair of its class (success or error) and
  its message.
\<close>

record ui =
  input_value :: string
  input_disabled :: bool
  loadFileBtn_disabled :: bool
  pasteBtn_disabled :: bool
  clearBtn_disabled :: bool
  deleteBtn_disabled :: bool
  count_text :: string
  progress_shown :: bool
  progress_text :: string
  results_shown :: bool
  results_log :: "(bool \<times> string) list"
  alerts :: "string list"

definition getIds :: "ui \<Rightarrow> string list" where
  "getIds u =
     filter (\<lambda>line. length line > 0 \<and> \<not> startsWith line ''#'')
       (map trim (js_split newline (input_value u)))"

definition updateCount :: "ui \<Rightarrow> ui" where
  "updateCount u =
     (let ids = getIds u in
      u\<lparr>count_text := nat_to_string (length ids) @ '' bookmark ID(s) loaded'',
        deleteBtn_disabled := (length ids = 0)\<rparr>)"

definition addResult :: "bool \<Rightarrow> string \<Rightarrow> ui \<Rightarrow> ui" where
  "addResult success message u = u\<lparr>results_log := results_log u @ [(success, message)]\<rparr>"

subsection \<open>File import\<close>

text \<open>
  \<^verbatim>\<open>json.map(item => typeof item === 'object' ? item.id : item)\<close>: the mapped
  array, or the message of the TypeError that reading \<^verbatim>\<open>null.id\<close> throws.
\<close>

fun import_items :: "jsval list \<Rightarrow> string + jsval list" where
  "import_items [] = Inr []"
| "import_items (item # items) =
     (case (if typeof_object item then get_prop item ''id'' else Inr item) of
        Inl msg \<Rightarrow> Inl msg
      | Inr v \<Rightarrow> (case import_items items of Inl msg \<Rightarrow> Inl msg | Inr vs \<Rightarrow> Inr (v # vs)))"

text \<open>
  The \<^verbatim>\<open>onload\<close> handler of the file reader. \<open>result\<close> is the text of the file and
  \<open>parsed\<close> is what \<^verbatim>\<open>JSON.parse\<close> makes of that text: \<open>None\<close> when it throws.
  Every error thrown inside the \<^verbatim>\<open>try\<close> block leaves \<open>content\<close> as it was.
\<close>

definition reader_onload :: "string \<Rightarrow> jsval option \<Rightarrow> ui \<Rightarrow> ui" where
  "reader_onload result parsed u =
     (let content =
        (case parsed of
           None \<Rightarrow> result
         | Some json \<Rightarrow>
             (case json of
                JArr items \<Rightarrow>
                  (case import_items items of
                     Inl msg \<Rightarrow> result
                   | Inr vs \<Rightarrow>
                       (case array_join [newline] vs of
                          Inl msg \<Rightarrow> result
                        | Inr joined \<Rightarrow> joined))
              | _ \<Rightarrow> result))
      in updateCount (u\<lparr>input_value := content\<rparr>))"

subsection \<open>The delete run\<close>

definition confirm_message :: "nat \<Rightarrow> string" where
  "confirm_message n =
     ''Are you sure you want to delete '' @ nat_to_string n @ '' bookmark(s)?'' @ [newline, newline] @
     ''This action cannot be undone and will sync to your account.''"

text \<open>Lines 84 to 92: every control is disabled and the result log is emptied.\<close>

definition start_run :: "ui \<Rightarrow> ui" where
  "start_run u =
     u\<lparr>deleteBtn_disabled := True, loadFileBtn_disabled := True, pasteBtn_disabled := True,
       clearBtn_disabled := True, input_disabled := True,
       progress_shown := True, results_shown := True, results_log := []\<rparr>"

text \<open>
  The loop of lines 98 to 112 from index \<open>i\<close> on, over the ids that remain. It returns
  the two counters, or stalls at a call that never settles.
\<close>

fun run_loop ::
  "'st bookmarks_api \<Rightarrow> string list \<Rightarrow> nat \<Rightarrow> nat \<Rightarrow> nat \<Rightarrow> nat \<Rightarrow> ui \<Rightarrow> 'st world \<Rightarrow>
     (nat \<times> nat) run \<times> ui \<times> 'st world" where
  "run_loop api [] i total_n successCount errorCount u w = (Returned (successCount, errorCount), u, w)"
| "run_loop api (bid # rest) i total_n successCount errorCount u w =
     (let u1 = u\<lparr>progress_text :=
                  ''Deleting '' @ nat_to_string (i + 1) @ '' of '' @ nat_to_string total_n @ ''...''\<rparr> in
      case js_String (JStr bid) of
        Inr idStr \<Rightarrow>
          (case await_remove api idStr w of
             (Fulfilled x, w') \<Rightarrow>
               run_loop api rest (i + 1) total_n (successCount + 1) errorCount
                 (addResult True (''Deleted bookmark ID: '' @ bid) u1) w'
           | (Rejected msg, w') \<Rightarrow>
               run_loop api rest (i + 1) total_n successCount (errorCount + 1)
                 (addResult False (''Failed ID '' @ bid @ '': '' @ msg) u1) w'
           | (Never, w') \<Rightarrow> (Stalled, u1, w'))
      | Inl msg \<Rightarrow>
          run_loop api rest (i + 1) total_n successCount (errorCount + 1)
            (addResult False (''Failed ID '' @ bid @ '': '' @ msg) u1) w)"

text \<open>Lines 114 to 132: what the handler does once the loop has ended.\<close>

definition finish_run :: "nat \<Rightarrow> nat \<Rightarrow> ui \<Rightarrow> ui" where
  "finish_run successCount errorCount u =
     (let u1 = u\<lparr>progress_text :=
                  ''<strong>Complete!</strong> Deleted: '' @ nat_to_string successCount @
                  '', Failed: '' @ nat_to_string errorCount\<rparr>;
          u2 = (if successCount > 0
                then addResult True
                       (newline # ''--- '' @ nat_to_string successCount @
                        '' bookmark(s) deleted and will sync to your account ---'') u1
                else u1);
          u3 = u2\<lparr>loadFileBtn_disabled := False, pasteBtn_disabled := False,
                  clearBtn_disabled := False, input_disabled := False, deleteBtn_disabled := False\<rparr>
      in if errorCount = 0 then updateCount (u3\<lparr>input_value := []\<rparr>) else u3)"

text \<open>
  The click handler of the delete button. \<open>confirm\<close> is the operator's answer to the
  dialog. The result says whether the handler ran to its end or is still waiting for a
  store call; the page is the one an observer sees at that point.
\<close>

definition deleteBtn_click ::
  "'st bookmarks_api \<Rightarrow> (string \<Rightarrow> bool) \<Rightarrow> ui \<Rightarrow> 'st world \<Rightarrow> unit run \<times> ui \<times> 'st world" where
  "deleteBtn_click api confirm u w =
     (let ids = getIds u in
      if length ids = 0 then (Returned (), u\<lparr>alerts := alerts u @ [''No bookmark IDs to delete.'']\<rparr>, w)
      else if \<not> confirm (confirm_message (length ids)) then (Returned (), u, w)
      else
        (case run_loop api ids 0 (length ids) 0 0 (start_run u) w of
           (Returned (successCount, errorCount), u', w') \<Rightarrow>
             (Returned (), finish_run successCount errorCount u', w')
         | (Threw msg, u', w') \<Rightarrow> (Threw msg, u', w')
         | (Stalled, u', w') \<Rightarrow> (Stalled, u', w')))"

section \<open>Reading the call log\<close>

text \<open>The events a handler added to the log.\<close>

definition new_calls :: "'st world \<Rightarrow> 'st world \<Rightarrow> event list" where
  "new_calls w w' = drop (length (calls w)) (calls w')"

text \<open>The calls that were started, in order.\<close>

fun issued :: "event list \<Rightarrow> call list" where
  "issued [] = []"
| "issued (Issued c # es) = c # issued es"
| "issued (Settled c out # es) = issued es"

text \<open>How the settled calls ended, in order: \<open>None\<close> for fulfilled, the message for rejected.\<close>

fun outcomes :: "event list \<Rightarrow> string option list" where
  "outcomes [] = []"
| "outcomes (Issued c # es) = outcomes es"
| "outcomes (Settled c out # es) = out # outcomes es"

text \<open>
  The log of a finished sequential batch over the calls \<open>cs\<close>: each call is issued and
  settled before the next one is issued, one call per item, nothing else.
\<close>

fun sequential :: "call list \<Rightarrow> event list \<Rightarrow> bool" where
  "sequential [] es = (es = [])"
| "sequential (c # cs) (Issued c1 # Settled c2 out # es) = (c1 = c \<and> c2 = c \<and> sequential cs es)"
| "sequential (c # cs) es = False"

text \<open>No call is issued while an earlier one is unsettled: only the last event may be an open call.\<close>

fun awaited :: "event list \<Rightarrow> bool" where
  "awaited [] = True"
| "awaited [Issued c] = True"
| "awaited (Issued c # Settled c' out # es) = (c = c' \<and> awaited es)"
| "awaited es = False"

text \<open>The log of calls that all settled, given their outcomes.\<close>

fun settled_pairs :: "call list \<Rightarrow> string option list \<Rightarrow> event list" where
  "settled_pairs (c # cs) (out # outs) = Issued c # Settled c out # settled_pairs cs outs"
| "settled_pairs cs outs = []"

text \<open>Every call to the store settles.\<close>

definition responsive :: "'st bookmarks_api \<Rightarrow> bool" where
  "responsive api \<longleftrightarrow>
     (\<forall>i s. fst (bookmarks_remove api i s) \<noteq> Never) \<and> (\<forall>u s. fst (bookmarks_search api u s) \<noteq> Never)"

text \<open>The line the delete run of the page logs for an id, given how its call ended.\<close>

definition result_line :: "string \<Rightarrow> string option \<Rightarrow> bool \<times> string" where
  "result_line bid out =
     (case out of
        None \<Rightarrow> (True, ''Deleted bookmark ID: '' @ bid)
      | Some msg \<Rightarrow> (False, ''Failed ID '' @ bid @ '': '' @ msg))"

text \<open>All five interactive controls report disabled.\<close>

definition all_disabled :: "ui \<Rightarrow> bool" where
  "all_disabled u \<longleftrightarrow>
     loadFileBtn_disabled u \<and> pasteBtn_disabled u \<and> clearBtn_disabled u \<and>
     deleteBtn_disabled u \<and> input_disabled u"

text \<open>All five interactive controls report enabled.\<close>

definition all_enabled :: "ui \<Rightarrow> bool" where
  "all_enabled u \<longleftrightarrow>
     \<not> loadFileBtn_disabled u \<and> \<not> pasteBtn_disabled u \<and> \<not> clearBtn_disabled u \<and>
     \<not> deleteBtn_disabled u \<and> \<not> input_disabled u"

section \<open>An example store and example runs\<close>

text \<open>
  A small store to run the handlers on: a list of nodes. Removing an id that is not
  there is rejected, as is a search whose url is not a string. In the stalling variant
  the removal of the id \<open>hang\<close> never settles.
\<close>

definition example_remove :: "string \<Rightarrow> node list \<Rightarrow> unit settled \<times> node list" where
  "example_remove i s =
     (if i \<in> set (map node_id s) then (Fulfilled (), filter (\<lambda>n. node_id n \<noteq> i) s)
      else (Rejected ''not found'', s))"

definition example_search :: "jsval \<Rightarrow> node list \<Rightarrow> node list settled \<times> node list" where
  "example_search url s =
     (case url of
        JStr u \<Rightarrow> (Fulfilled (filter (\<lambda>n. node_url n = Some u) s), s)
      | _ \<Rightarrow> (Rejected ''bad url'', s))"

definition example_api :: "node list bookmarks_api" where
  "example_api = \<lparr>bookmarks_remove = example_remove, bookmarks_search = example_search\<rparr>"

definition stalling_api :: "node list bookmarks_api" where
  "stalling_api =
     \<lparr>bookmarks_remove = (\<lambda>i s. if i = ''hang'' then (Never, s) else example_remove i s),
      bookmarks_search = example_search\<rparr>"

definition bm :: "string \<Rightarrow> string \<Rightarrow> node" where
  "bm i u = \<lparr>node_id = i, node_parentId = Some ''1'', node_index = None, node_url = Some u,
             node_title = ''t'', node_dateAdded = None\<rparr>"

definition example_world :: "node list world" where
  "example_world = \<lparr>store = [bm ''5'' ''http://a'', bm ''7'' ''http://b''], calls = []\<rparr>"

text \<open>
  A batch of ids with a duplicate and a missing one, a batch of urls with a bad one,
  and what the example store answers.
\<close>

definition example_ids :: "jsval list" where
  "example_ids = [JNum ''5'', JStr ''9'', JNum ''5'']"

definition example_del_results :: "del_result list" where
  "example_del_results =
     [\<lparr>dr_id = ''5'', dr_success = True, dr_error = None\<rparr>,
      \<lparr>dr_id = ''9'', dr_success = False, dr_error = Some ''not found''\<rparr>,
      \<lparr>dr_id = ''5'', dr_success = False, dr_error = Some ''not found''\<rparr>]"

definition example_del_calls :: "event list" where
  "example_del_calls =
     [Issued (Remove ''5''), Settled (Remove ''5'') None,
      Issued (Remove ''9''), Settled (Remove ''9'') (Some ''not found''),
      Issued (Remove ''5''), Settled (Remove ''5'') (Some ''not found'')]"

definition example_del_world :: "node list world" where
  "example_del_world = \<lparr>store = [bm ''7'' ''http://b''], calls = example_del_calls\<rparr>"

definition example_urls :: "jsval list" where
  "example_urls = [JNum ''3'', JStr ''http://b'']"

definition example_find_results :: "find_result list" where
  "example_find_results =
     [\<lparr>fr_url = JNum ''3'', fr_bookmarks = [], fr_error = Some ''bad url''\<rparr>,
      \<lparr>fr_url = JStr ''http://b'',
       fr_bookmarks = [\<lparr>m_id = ''7'', m_title = ''t'', m_url = Some ''http://b'', m_parentId = Some ''1''\<rparr>],
       fr_error = None\<rparr>]"

definition example_find_calls :: "event list" where
  "example_find_calls =
     [Issued (Search (JNum ''3'')), Settled (Search (JNum ''3'')) (Some ''bad url''),
      Issued (Search (JStr ''http://b'')), Settled (Search (JStr ''http://b'')) None]"

definition example_find_world :: "node list world" where
  "example_find_world = \<lparr>store = store example_world, calls = example_find_calls\<rparr>"

definition example_delete_request :: jsval where
  "example_delete_request = JObj [(''action'', JStr ''deleteBookmarks''), (''bookmarkIds'', JArr example_ids)]"

definition example_find_request :: jsval where
  "example_find_request = JObj [(''action'', JStr ''findBookmarksByUrl''), (''urls'', JArr example_urls)]"

definition example_ping_request :: jsval where
  "example_ping_request = JObj [(''action'', JStr ''ping'')]"

definition example_no_ids_request :: jsval where
  "example_no_ids_request = JObj [(''action'', JStr ''deleteBookmarks'')]"

definition example_unknown_request :: jsval where
  "example_unknown_request = JObj [(''action'', JStr ''deleteAll''), (''bookmarkIds'', JArr example_ids)]"

text \<open>A page, an operator who confirms, and inputs for the page.\<close>

definition blank_ui :: ui where
  "blank_ui = \<lparr>input_value = [], input_disabled = False, loadFileBtn_disabled = False,
     pasteBtn_disabled = False, clearBtn_disabled = False, deleteBtn_disabled = True,
     count_text = [], progress_shown = False, progress_text = [], results_shown = False,
     results_log = [], alerts = []\<rparr>"

definition always_confirm :: "string \<Rightarrow> bool" where
  "always_confirm message = True"

definition ui_with_input :: "string \<Rightarrow> ui" where
  "ui_with_input s = updateCount (blank_ui\<lparr>input_value := s\<rparr>)"

text \<open>Page inputs for the example runs: two ids that exist, one that does not, one that hangs.\<close>

definition input_5_7 :: string where
  "input_5_7 = ''5'' @ [newline] @ ''7''"

definition input_5_8_5 :: string where
  "input_5_8_5 = ''5'' @ [newline] @ ''8'' @ [newline] @ ''5''"

definition input_5_hang :: string where
  "input_5_hang = ''5'' @ [newline] @ ''hang''"

text \<open>Three runs of the page's delete handler: all succeed, some fail, one call hangs.\<close>

definition run_5_7 :: "unit run \<times> ui \<times> node list world" where
  "run_5_7 = deleteBtn_click example_api always_confirm (ui_with_input input_5_7) example_world"

definition run_5_8_5 :: "unit run \<times> ui \<times> node list world" where
  "run_5_8_5 = deleteBtn_click example_api always_confirm (ui_with_input input_5_8_5) example_world"

definition run_5_hang :: "unit run \<times> ui \<times> node list world" where
  "run_5_hang = deleteBtn_click stalling_api always_confirm (ui_with_input input_5_hang) example_world"

text \<open>An item that \<^verbatim>\<open>String\<close> converts without throwing: every number and string is one.\<close>

definition stringifiable :: "jsval \<Rightarrow> bool" where
  "stringifiable x = (case js_String x of Inr s \<Rightarrow> True | Inl msg \<Rightarrow> False)"

text \<open>
  Two batches whose second item is an object with an own \<^verbatim>\<open>toString\<close> property,
  and the requests that carry them.
\<close>

definition toString_object :: jsval where
  "toString_object = JObj [(''toString'', JNum ''1'')]"

definition ids_5_object_7 :: "jsval list" where
  "ids_5_object_7 = [JNum ''5'', toString_object, JNum ''7'']"

definition ids_9_object_7 :: "jsval list" where
  "ids_9_object_7 = [JStr ''9'', toString_object, JNum ''7'']"

definition request_5_object_7 :: jsval where
  "request_5_object_7 = JObj [(''action'', JStr ''deleteBookmarks''), (''bookmarkIds'', JArr ids_5_object_7)]"

section \<open>Lemmas about the call log\<close>

lemma issued_settled_pairs: "length outs = length cs \<Longrightarrow> issued (settled_pairs cs outs) = cs"
  by (induction cs outs rule: settled_pairs.induct) auto

lemma outcomes_settled_pairs: "length outs = length cs \<Longrightarrow> outcomes (settled_pairs cs outs) = outs"
  by (induction cs outs rule: settled_pairs.induct) auto

lemma sequential_settled_pairs: "length outs = length cs \<Longrightarrow> sequential cs (settled_pairs cs outs)"
  by (induction cs outs rule: settled_pairs.induct) auto

lemma awaited_settled_pairs: "awaited (settled_pairs cs outs)"
  by (induction cs outs rule: settled_pairs.induct) auto

lemma new_calls_append: "calls w' = calls w @ tr \<Longrightarrow> new_calls w w' = tr"
  by (simp add: new_calls_def)

lemma await_remove_calls:
  "await_remove api i w = (out, w') \<Longrightarrow> calls w' = calls w @ settle_events (Remove i) out"
  by (auto simp: await_remove_def split: prod.splits)

lemma await_search_calls:
  "await_search api u w = (out, w') \<Longrightarrow> calls w' = calls w @ settle_events (Search u) out"
  by (auto simp: await_search_def split: prod.splits)

section \<open>Lemmas about the batch mutator\<close>

lemma stringifiable_iff: "stringifiable x \<longleftrightarrow> (\<exists>s. js_String x = Inr s)"
  by (cases "js_String x") (simp_all add: stringifiable_def)

lemma ids_stringifiable: "stringifiable (JNum n)" "stringifiable (JStr s)"
  by (simp_all add: stringifiable_def)

lemma deleteBookmarks_loop_Cons:
  assumes "js_String bid = Inr s" and "await_remove api s w = (out, w1)"
  shows "deleteBookmarks_loop api (bid # rest) results w =
     (case out of
        Fulfilled u \<Rightarrow>
          deleteBookmarks_loop api rest (results @ [\<lparr>dr_id = s, dr_success = True, dr_error = None\<rparr>]) w1
      | Rejected msg \<Rightarrow>
          deleteBookmarks_loop api rest (results @ [\<lparr>dr_id = s, dr_success = False, dr_error = Some msg\<rparr>]) w1
      | Never \<Rightarrow> (Stalled, w1))"
  using assms by (simp split: settled.splits)

lemma deleteBookmarks_loop_Cons_throws:
  assumes "js_String bid = Inl msg"
  shows "deleteBookmarks_loop api (bid # rest) results w = (Threw msg, w)"
  using assms by simp

lemma deleteBookmarks_loop_Returned:
  "deleteBookmarks_loop api xs acc w = (Returned rs, w') \<Longrightarrow>
   \<exists>new. rs = acc @ new \<and>
         list_all2 (\<lambda>x r. js_String x = Inr (dr_id r) \<and> dr_success r = (dr_error r = None)) xs new \<and>
         calls w' = calls w @ settled_pairs (map (\<lambda>r. Remove (dr_id r)) new) (map dr_error new)"
proof (induction xs arbitrary: acc w)
  case Nil
  then show ?case by simp
next
  case (Cons x xs)
  show ?case
  proof (cases "js_String x")
    case (Inl msg)
    with Cons.prems show ?thesis by (simp add: deleteBookmarks_loop_Cons_throws)
  next
    case (Inr s)
    obtain out w1 where aw: "await_remove api s w = (out, w1)"
      by (cases "await_remove api s w")
    note log = await_remove_calls [OF aw]
    note step = deleteBookmarks_loop_Cons [OF Inr aw, of xs acc]
    show ?thesis
    proof (cases out)
      case (Fulfilled u)
      let ?e = "\<lparr>dr_id = s, dr_success = True, dr_error = None\<rparr>"
      from Cons.prems step Fulfilled
      have "deleteBookmarks_loop api xs (acc @ [?e]) w1 = (Returned rs, w')" by simp
      from Cons.IH [OF this] obtain new where
        n: "rs = (acc @ [?e]) @ new"
           "list_all2 (\<lambda>x r. js_String x = Inr (dr_id r) \<and> dr_success r = (dr_error r = None)) xs new"
           "calls w' = calls w1 @ settled_pairs (map (\<lambda>r. Remove (dr_id r)) new) (map dr_error new)"
        by blast
      show ?thesis
        by (rule exI [of _ "?e # new"]) (use n log Fulfilled Inr in \<open>simp add: settle_events_def\<close>)
    next
      case (Rejected msg)
      let ?e = "\<lparr>dr_id = s, dr_success = False, dr_error = Some msg\<rparr>"
      from Cons.prems step Rejected
      have "deleteBookmarks_loop api xs (acc @ [?e]) w1 = (Returned rs, w')" by simp
      from Cons.IH [OF this] obtain new where
        n: "rs = (acc @ [?e]) @ new"
           "list_all2 (\<lambda>x r. js_String x = Inr (dr_id r) \<and> dr_success r = (dr_error r = None)) xs new"
           "calls w' = calls w1 @ settled_pairs (map (\<lambda>r. Remove (dr_id r)) new) (map dr_error new)"
        by blast
      show ?thesis
        by (rule exI [of _ "?e # new"]) (use n log Rejected Inr in \<open>simp add: settle_events_def\<close>)
    next
      case Never
      with Cons.prems step show ?thesis by simp
    qed
  qed
qed

text \<open>The loop throws only at an item that cannot be converted, with that conversion's message.\<close>

lemma deleteBookmarks_loop_Threw:
  "deleteBookmarks_loop api xs acc w = (Threw msg, w') \<Longrightarrow> \<exists>x\<in>set xs. js_String x = Inl msg"
proof (induction xs arbitrary: acc w)
  case Nil
  then show ?case by simp
next
  case (Cons x xs)
  show ?case
  proof (cases "js_String x")
    case (Inl m)
    with Cons.prems show ?thesis by (simp add: deleteBookmarks_loop_Cons_throws)
  next
    case (Inr s)
    obtain out w1 where aw: "await_remove api s w = (out, w1)"
      by (cases "await_remove api s w")
    note step = deleteBookmarks_loop_Cons [OF Inr aw, of xs acc]
    show ?thesis
    proof (cases out)
      case (Fulfilled u)
      with Cons.prems step obtain acc' where "deleteBookmarks_loop api xs acc' w1 = (Threw msg, w')" by simp
      from Cons.IH [OF this] show ?thesis by simp
    next
      case (Rejected m)
      with Cons.prems step obtain acc' where "deleteBookmarks_loop api xs acc' w1 = (Threw msg, w')" by simp
      from Cons.IH [OF this] show ?thesis by simp
    next
      case Never
      with Cons.prems step show ?thesis by simp
    qed
  qed
qed

lemma await_remove_responsive:
  "responsive api \<Longrightarrow> fst (await_remove api i w) \<noteq> Never"
  by (auto simp: responsive_def await_remove_def split: prod.splits) (metis fst_conv)

text \<open>With a store whose calls settle, the loop returns when every item can be converted.\<close>

lemma deleteBookmarks_loop_responsive:
  "responsive api \<Longrightarrow> \<forall>x\<in>set xs. stringifiable x \<Longrightarrow>
     \<exists>rs w'. deleteBookmarks_loop api xs acc w = (Returned rs, w')"
proof (induction xs arbitrary: acc w)
  case Nil
  then show ?case by simp
next
  case (Cons x xs)
  from Cons.prems(2) obtain s where s: "js_String x = Inr s"
    by (auto simp: stringifiable_iff)
  from Cons.prems(2) have rest: "\<forall>x\<in>set xs. stringifiable x" by simp
  obtain out w1 where aw: "await_remove api s w = (out, w1)"
    by (cases "await_remove api s w")
  with await_remove_responsive [OF Cons.prems(1), of s w] have nn: "out \<noteq> Never" by simp
  note step = deleteBookmarks_loop_Cons [OF s aw, of xs acc]
  show ?case
  proof (cases out)
    case (Fulfilled u)
    with step obtain acc' where
      "deleteBookmarks_loop api (x # xs) acc w = deleteBookmarks_loop api xs acc' w1" by simp
    with Cons.IH [OF Cons.prems(1) rest, of acc' w1] show ?thesis by simp
  next
    case (Rejected m)
    with step obtain acc' where
      "deleteBookmarks_loop api (x # xs) acc w = deleteBookmarks_loop api xs acc' w1" by simp
    with Cons.IH [OF Cons.prems(1) rest, of acc' w1] show ?thesis by simp
  next
    case Never
    with nn show ?thesis by simp
  qed
qed

text \<open>With a store whose calls settle, the loop throws when some item cannot be converted.\<close>

lemma deleteBookmarks_loop_responsive_Threw:
  "responsive api \<Longrightarrow> \<exists>x\<in>set xs. \<not> stringifiable x \<Longrightarrow>
     \<exists>msg w'. deleteBookmarks_loop api xs acc w = (Threw msg, w')"
proof (induction xs arbitrary: acc w)
  case Nil
  then show ?case by simp
next
  case (Cons x xs)
  show ?case
  proof (cases "js_String x")
    case (Inl m)
    then show ?thesis by (simp add: deleteBookmarks_loop_Cons_throws)
  next
    case (Inr s)
    then have "stringifiable x" by (simp add: stringifiable_iff)
    with Cons.prems(2) have rest: "\<exists>x\<in>set xs. \<not> stringifiable x" by auto
    obtain out w1 where aw: "await_remove api s w = (out, w1)"
      by (cases "await_remove api s w")
    with await_remove_responsive [OF Cons.prems(1), of s w] have nn: "out \<noteq> Never" by simp
    note step = deleteBookmarks_loop_Cons [OF Inr aw, of xs acc]
    show ?thesis
    proof (cases out)
      case (Fulfilled u)
      with step obtain acc' where
        "deleteBookmarks_loop api (x # xs) acc w = deleteBookmarks_loop api xs acc' w1" by simp
      with Cons.IH [OF Cons.prems(1) rest, of acc' w1] show ?thesis by simp
    next
      case (Rejected m)
      with step obtain acc' where
        "deleteBookmarks_loop api (x # xs) acc w = deleteBookmarks_loop api xs acc' w1" by simp
      with Cons.IH [OF Cons.prems(1) rest, of acc' w1] show ?thesis by simp
    next
      case Never
      with nn show ?thesis by simp
    qed
  qed
qed

lemma deleteBookmarks_loop_awaited:
  "deleteBookmarks_loop api xs acc w = (r, w') \<Longrightarrow> \<exists>tr. calls w' = calls w @ tr \<and> awaited tr"
proof (induction xs arbitrary: acc w)
  case Nil
  then show ?case by simp
next
  case (Cons x xs)
  show ?case
  proof (cases "js_String x")
    case (Inl m)
    with Cons.prems show ?thesis by (simp add: deleteBookmarks_loop_Cons_throws)
  next
    case (Inr s)
    obtain out w1 where aw: "await_remove api s w = (out, w1)"
      by (cases "await_remove api s w")
    note log = await_remove_calls [OF aw]
    note step = deleteBookmarks_loop_Cons [OF Inr aw, of xs acc]
    show ?thesis
    proof (cases out)
      case (Fulfilled u)
      with Cons.prems step obtain acc' where "deleteBookmarks_loop api xs acc' w1 = (r, w')" by simp
      from Cons.IH [OF this] obtain tr where "calls w' = calls w1 @ tr" "awaited tr" by blast
      with log Fulfilled show ?thesis by (simp add: settle_events_def)
    next
      case (Rejected msg)
      with Cons.prems step obtain acc' where "deleteBookmarks_loop api xs acc' w1 = (r, w')" by simp
      from Cons.IH [OF this] obtain tr where "calls w' = calls w1 @ tr" "awaited tr" by blast
      with log Rejected show ?thesis by (simp add: settle_events_def)
    next
      case Never
      with Cons.prems step log show ?thesis by (simp add: settle_events_def)
    qed
  qed
qed

section \<open>Lemmas about the lookup resolver\<close>

lemma findBookmarksByUrl_loop_Returned:
  "findBookmarksByUrl_loop api us acc w = (Returned fs, w') \<Longrightarrow>
   \<exists>new. fs = acc @ new \<and>
         list_all2 (\<lambda>u r. fr_url r = u \<and> (fr_error r \<noteq> None \<longrightarrow> fr_bookmarks r = [])) us new \<and>
         calls w' = calls w @ settled_pairs (map Search us) (map fr_error new)"
proof (induction us arbitrary: acc w)
  case Nil
  then show ?case by simp
next
  case (Cons u us)
  obtain out w1 where aw: "await_search api u w = (out, w1)"
    by (cases "await_search api u w")
  note log = await_search_calls [OF aw]
  show ?case
  proof (cases out)
    case (Fulfilled bs)
    let ?e = "\<lparr>fr_url = u, fr_bookmarks = map to_match bs, fr_error = None\<rparr>"
    from Cons.prems aw Fulfilled
    have "findBookmarksByUrl_loop api us (acc @ [?e]) w1 = (Returned fs, w')" by simp
    from Cons.IH [OF this] obtain new where
      n: "fs = (acc @ [?e]) @ new"
         "list_all2 (\<lambda>u r. fr_url r = u \<and> (fr_error r \<noteq> None \<longrightarrow> fr_bookmarks r = [])) us new"
         "calls w' = calls w1 @ settled_pairs (map Search us) (map fr_error new)"
      by blast
    show ?thesis
      by (rule exI [of _ "?e # new"]) (use n log Fulfilled in \<open>simp add: settle_events_def\<close>)
  next
    case (Rejected msg)
    let ?e = "\<lparr>fr_url = u, fr_bookmarks = [], fr_error = Some msg\<rparr>"
    from Cons.prems aw Rejected
    have "findBookmarksByUrl_loop api us (acc @ [?e]) w1 = (Returned fs, w')" by simp
    from Cons.IH [OF this] obtain new where
      n: "fs = (acc @ [?e]) @ new"
         "list_all2 (\<lambda>u r. fr_url r = u \<and> (fr_error r \<noteq> None \<longrightarrow> fr_bookmarks r = [])) us new"
         "calls w' = calls w1 @ settled_pairs (map Search us) (map fr_error new)"
      by blast
    show ?thesis
      by (rule exI [of _ "?e # new"]) (use n log Rejected in \<open>simp add: settle_events_def\<close>)
  next
    case Never
    with Cons.prems aw show ?thesis by simp
  qed
qed

lemma findBookmarksByUrl_loop_not_Threw:
  "findBookmarksByUrl_loop api us acc w \<noteq> (Threw msg, w')"
  by (induction us arbitrary: acc w) (auto simp: Let_def split: prod.splits settled.splits)

lemma await_search_responsive:
  "responsive api \<Longrightarrow> fst (await_search api u w) \<noteq> Never"
  by (auto simp: responsive_def await_search_def split: prod.splits) (metis fst_conv)

lemma findBookmarksByUrl_loop_responsive:
  "responsive api \<Longrightarrow> \<exists>fs w'. findBookmarksByUrl_loop api us acc w = (Returned fs, w')"
proof (induction us arbitrary: acc w)
  case Nil
  then show ?case by simp
next
  case (Cons u us)
  obtain out w1 where aw: "await_search api u w = (out, w1)"
    by (cases "await_search api u w")
  with await_search_responsive [OF Cons.prems, of u w] have "out \<noteq> Never" by simp
  with aw Cons.IH [OF Cons.prems] show ?case
    by (cases out) simp_all
qed

lemma findBookmarksByUrl_urls:
  assumes "findBookmarksByUrl api (JArr us) w = (Returned fs, w')"
  shows "length fs = length us \<and> (\<forall>i<length us. fr_url (fs ! i) = us ! i)"
proof -
  from assms have "findBookmarksByUrl_loop api us [] w = (Returned fs, w')"
    by (simp add: findBookmarksByUrl_def)
  from findBookmarksByUrl_loop_Returned [OF this] obtain new where
    n: "fs = new"
       "list_all2 (\<lambda>u r. fr_url r = u \<and> (fr_error r \<noteq> None \<longrightarrow> fr_bookmarks r = [])) us new"
    by auto
  from n(2) have len: "length us = length new" by (rule list_all2_lengthD)
  have "fr_url (new ! i) = us ! i" if "i < length us" for i
    using list_all2_nthD [OF n(2) that] by simp
  with len n(1) show ?thesis by simp
qed

lemma findBookmarksByUrl_log:
  assumes "findBookmarksByUrl api (JArr us) w = (Returned fs, w')"
  shows "list_all2 (\<lambda>u r. fr_url r = u \<and> (fr_error r \<noteq> None \<longrightarrow> fr_bookmarks r = [])) us fs \<and>
         new_calls w w' = settled_pairs (map Search us) (map fr_error fs)"
proof -
  from assms have "findBookmarksByUrl_loop api us [] w = (Returned fs, w')"
    by (simp add: findBookmarksByUrl_def)
  from findBookmarksByUrl_loop_Returned [OF this] show ?thesis
    by (auto simp: new_calls_def)
qed

lemma findBookmarksByUrl_fault_entry:
  assumes run: "findBookmarksByUrl api (JArr us) w = (Returned fs, w')"
  shows "issued (new_calls w w') = map Search us \<and>
         length (outcomes (new_calls w w')) = length us \<and>
         (\<forall>i<length us. \<forall>msg. outcomes (new_calls w w') ! i = Some msg \<longrightarrow>
            fs ! i = \<lparr>fr_url = us ! i, fr_bookmarks = [], fr_error = Some msg\<rparr>)"
proof -
  from findBookmarksByUrl_log [OF run] have
    all: "list_all2 (\<lambda>u r. fr_url r = u \<and> (fr_error r \<noteq> None \<longrightarrow> fr_bookmarks r = [])) us fs"
    and log: "new_calls w w' = settled_pairs (map Search us) (map fr_error fs)"
    by simp_all
  from all have len: "length us = length fs" by (rule list_all2_lengthD)
  from len log have iss: "issued (new_calls w w') = map Search us"
    by (simp add: issued_settled_pairs)
  from len log have out: "outcomes (new_calls w w') = map fr_error fs"
    by (simp add: outcomes_settled_pairs)
  have "fs ! i = \<lparr>fr_url = us ! i, fr_bookmarks = [], fr_error = Some msg\<rparr>"
    if "i < length us" "outcomes (new_calls w w') ! i = Some msg" for i msg
  proof -
    from that out len have e: "fr_error (fs ! i) = Some msg" by simp
    from list_all2_nthD [OF all that(1)] e
    have "fr_url (fs ! i) = us ! i" "fr_bookmarks (fs ! i) = []" by simp_all
    with e show ?thesis by (cases "fs ! i") simp
  qed
  with iss out len show ?thesis by simp
qed

section \<open>Results and log of the batch mutator\<close>

lemma deleteBookmarks_log:
  assumes "deleteBookmarks api (JArr xs) w = (Returned rs, w')"
  shows "list_all2 (\<lambda>x r. js_String x = Inr (dr_id r) \<and> dr_success r = (dr_error r = None)) xs rs \<and>
         new_calls w w' = settled_pairs (map (\<lambda>r. Remove (dr_id r)) rs) (map dr_error rs)"
proof -
  from assms have "deleteBookmarks_loop api xs [] w = (Returned rs, w')"
    by (simp add: deleteBookmarks_def)
  from deleteBookmarks_loop_Returned [OF this] show ?thesis
    by (auto simp: new_calls_def)
qed

lemma deleteBookmarks_ids:
  assumes "deleteBookmarks api (JArr xs) w = (Returned rs, w')"
  shows "length rs = length xs \<and> (\<forall>i<length xs. js_String (xs ! i) = Inr (dr_id (rs ! i)))"
proof -
  from deleteBookmarks_log [OF assms] have
    all: "list_all2 (\<lambda>x r. js_String x = Inr (dr_id r) \<and> dr_success r = (dr_error r = None)) xs rs"
    by simp
  from all have len: "length xs = length rs" by (rule list_all2_lengthD)
  have "js_String (xs ! i) = Inr (dr_id (rs ! i))" if "i < length xs" for i
    using list_all2_nthD [OF all that] by simp
  with len show ?thesis by simp
qed

lemma deleteBookmarks_fault_entry:
  assumes run: "deleteBookmarks api (JArr xs) w = (Returned rs, w')"
  shows "issued (new_calls w w') = map (\<lambda>r. Remove (dr_id r)) rs \<and>
         map js_String xs = map (\<lambda>r. Inr (dr_id r)) rs \<and>
         (\<forall>i<length xs. \<forall>msg. outcomes (new_calls w w') ! i = Some msg \<longrightarrow>
            rs ! i = \<lparr>dr_id = dr_id (rs ! i), dr_success = False, dr_error = Some msg\<rparr>)"
proof -
  from deleteBookmarks_log [OF run] have
    all: "list_all2 (\<lambda>x r. js_String x = Inr (dr_id r) \<and> dr_success r = (dr_error r = None)) xs rs"
    and log: "new_calls w w' = settled_pairs (map (\<lambda>r. Remove (dr_id r)) rs) (map dr_error rs)"
    by simp_all
  from all have len: "length xs = length rs" by (rule list_all2_lengthD)
  from log have iss: "issued (new_calls w w') = map (\<lambda>r. Remove (dr_id r)) rs"
    by (simp add: issued_settled_pairs)
  from log have out: "outcomes (new_calls w w') = map dr_error rs"
    by (simp add: outcomes_settled_pairs)
  have ids: "map js_String xs = map (\<lambda>r. Inr (dr_id r)) rs"
    using all by (induction xs rs rule: list_all2_induct) simp_all
  have "rs ! i = \<lparr>dr_id = dr_id (rs ! i), dr_success = False, dr_error = Some msg\<rparr>"
    if "i < length xs" "outcomes (new_calls w w') ! i = Some msg" for i msg
  proof -
    from that out len have e: "dr_error (rs ! i) = Some msg" by simp
    from list_all2_nthD [OF all that(1)] e have "\<not> dr_success (rs ! i)" by simp
    with e show ?thesis by (cases "rs ! i") simp
  qed
  with iss ids show ?thesis by simp
qed

lemma deleteBookmarks_Returned_if:
  assumes "responsive api" and "\<forall>x\<in>set xs. stringifiable x"
  shows "\<exists>rs w'. deleteBookmarks api (JArr xs) w = (Returned rs, w')"
  using deleteBookmarks_loop_responsive [OF assms, of "[]" w] by (simp add: deleteBookmarks_def)

lemma findBookmarksByUrl_Returned_if:
  assumes "responsive api"
  shows "\<exists>fs w'. findBookmarksByUrl api (JArr us) w = (Returned fs, w')"
  using findBookmarksByUrl_loop_responsive [OF assms, of us "[]" w] by (simp add: findBookmarksByUrl_def)

lemma deleteBookmarks_Threw_item:
  assumes "deleteBookmarks api (JArr xs) w = (Threw msg, w')"
  shows "\<exists>x\<in>set xs. js_String x = Inl msg"
  using assms deleteBookmarks_loop_Threw [of api xs "[]" w msg w'] by (simp add: deleteBookmarks_def)

section \<open>The example runs\<close>

lemma responsive_example_api: "responsive example_api"
  by (simp add: responsive_def example_api_def example_remove_def example_search_def split: jsval.splits)

lemma example_ids_stringifiable: "\<forall>x\<in>set example_ids. stringifiable x"
  by (simp add: example_ids_def ids_stringifiable)

lemma example_ids_items:
  "stringifiable (example_ids ! 0)" "stringifiable (example_ids ! 1)" "stringifiable (example_ids ! 2)"
  by (simp_all add: example_ids_def ids_stringifiable)

lemma example_delete_run:
  "deleteBookmarks example_api (JArr example_ids) example_world =
     (Returned example_del_results, example_del_world)"
  by code_simp

lemma example_find_run:
  "findBookmarksByUrl example_api (JArr example_urls) example_world =
     (Returned example_find_results, example_find_world)"
  by code_simp

lemma example_delete_new_calls: "new_calls example_world example_del_world = example_del_calls"
  by (simp add: new_calls_def example_world_def example_del_world_def)

lemma example_find_new_calls: "new_calls example_world example_find_world = example_find_calls"
  by (simp add: new_calls_def example_world_def example_find_world_def)

lemma run_5_object_7:
  "deleteBookmarks example_api (JArr ids_5_object_7) example_world =
     (Threw cannot_convert_message,
      \<lparr>store = [bm ''7'' ''http://b''], calls = [Issued (Remove ''5''), Settled (Remove ''5'') None]\<rparr>)"
  by code_simp

lemma run_9_object_7:
  "deleteBookmarks example_api (JArr ids_9_object_7) example_world =
     (Threw cannot_convert_message,
      \<lparr>store = store example_world,
       calls = [Issued (Remove ''9''), Settled (Remove ''9'') (Some ''not found'')]\<rparr>)"
  by code_simp

section \<open>Result lists line up with their input\<close>

text \<open>
  C1, as stated, fails for \<open>deleteBookmarks\<close>: for the list of three items
  \<open>[5, {toString: 1}, 7]\<close> the conversion of the second item throws at line 53 and
  again at line 57, the handler throws, and the response carries no result list.
\<close>

theorem results_one_per_item_counterexample:
  "length ids_5_object_7 = 3 \<and>
   fst (deleteBookmarks example_api (JArr ids_5_object_7) example_world) = Threw cannot_convert_message \<and>
   sent (fst (onMessageExternal example_api request_5_object_7 example_world))
     = [failure_response cannot_convert_message] \<and>
   r_results (failure_response cannot_convert_message) = None"
  using run_5_object_7
  by (simp add: onMessageExternal_def request_5_object_7_def respond_def failure_response_def
      ids_5_object_7_def)

text \<open>
  C1, amended. When \<open>deleteBookmarks\<close> or \<open>findBookmarksByUrl\<close> is given a list of N
  items and returns, the result list has exactly N entries and entry \<open>i\<close> carries the
  stringified id, respectively the url, of item \<open>i\<close>, whatever the store answered for
  each call. If every store call settles, \<open>findBookmarksByUrl\<close> returns for every
  list, and \<open>deleteBookmarks\<close> returns for every list whose items \<open>String\<close> can
  convert, as it can every number and every string.
\<close>

theorem results_one_per_item:
  "(deleteBookmarks api (JArr xs) w = (Returned rs, w') \<longrightarrow>
      length rs = length xs \<and> (\<forall>i<length xs. js_String (xs ! i) = Inr (dr_id (rs ! i)))) \<and>
   (findBookmarksByUrl api (JArr us) w = (Returned fs, w'') \<longrightarrow>
      length fs = length us \<and> (\<forall>i<length us. fr_url (fs ! i) = us ! i)) \<and>
   (responsive api \<and> (\<forall>x\<in>set xs. stringifiable x) \<longrightarrow>
      (\<exists>rs w'. deleteBookmarks api (JArr xs) w = (Returned rs, w'))) \<and>
   (responsive api \<longrightarrow> (\<exists>fs w'. findBookmarksByUrl api (JArr us) w = (Returned fs, w'))) \<and>
   stringifiable (JNum n) \<and> stringifiable (JStr s)"
  using deleteBookmarks_ids [of api xs w rs w'] findBookmarksByUrl_urls [of api us w fs w'']
    deleteBookmarks_Returned_if [of api xs w] findBookmarksByUrl_Returned_if [of api us w]
    ids_stringifiable(1) [of n] ids_stringifiable(2) [of s]
  by blast

theorem results_one_per_item_witness:
  "responsive example_api \<and> stringifiable (example_ids ! 0) \<and>
   stringifiable (example_ids ! 1) \<and> stringifiable (example_ids ! 2) \<and>
   deleteBookmarks example_api (JArr example_ids) example_world = (Returned example_del_results, example_del_world) \<and>
   length example_del_results = length example_ids \<and>
   js_String (example_ids ! 1) = Inr (dr_id (example_del_results ! 1)) \<and>
   findBookmarksByUrl example_api (JArr example_urls) example_world = (Returned example_find_results, example_find_world) \<and>
   length example_find_results = length example_urls \<and>
   fr_url (example_find_results ! 0) = example_urls ! 0"
proof -
  note d = example_delete_run and f = example_find_run
  from results_one_per_item [of example_api example_ids example_world example_del_results
      example_del_world example_urls example_find_results example_find_world] d f
  have "length example_del_results = length example_ids \<and>
        (\<forall>i<length example_ids. js_String (example_ids ! i) = Inr (dr_id (example_del_results ! i)))"
    and "length example_find_results = length example_urls \<and>
        (\<forall>i<length example_urls. fr_url (example_find_results ! i) = example_urls ! i)"
    by simp_all
  moreover have "(1::nat) < length example_ids" "(0::nat) < length example_urls"
    by (simp_all add: example_ids_def example_urls_def)
  ultimately show ?thesis
    using responsive_example_api example_ids_items d f by simp
qed

section \<open>Failure isolation\<close>

text \<open>
  C2, as stated, fails for \<open>deleteBookmarks\<close>: on the list \<open>["9", {toString: 1}, 7]\<close>
  the store call for the first item is rejected, the conversion of the second item
  throws out of the loop, and the third item is never attempted: the only call issued
  is the one for \<open>9\<close>.
\<close>

theorem fault_is_isolated_counterexample:
  "fst (deleteBookmarks example_api (JArr ids_9_object_7) example_world) = Threw cannot_convert_message \<and>
   new_calls example_world (snd (deleteBookmarks example_api (JArr ids_9_object_7) example_world))
     = [Issued (Remove ''9''), Settled (Remove ''9'') (Some ''not found'')] \<and>
   issued (new_calls example_world (snd (deleteBookmarks example_api (JArr ids_9_object_7) example_world)))
     = [Remove ''9''] \<and>
   ids_9_object_7 ! 2 = JNum ''7''"
  using run_9_object_7
  by (simp add: new_calls_def example_world_def ids_9_object_7_def)

text \<open>
  C2, amended. When a batch over a list returns, every item's store call was issued, in
  input order, and an item whose call was rejected with a message has exactly the
  failure entry for that item: id, \<open>success = False\<close> and the message for a delete; url,
  the message and an empty match list for a lookup. A rejected call never makes a batch
  throw: a lookup over a list never throws, and a delete throws only at an item that
  \<open>String\<close> cannot convert. If every store call settles, a lookup returns for every
  list and a delete returns for every list whose items \<open>String\<close> can convert, so
  there a faulting item neither aborts the batch nor skips a later item.
\<close>

theorem fault_is_isolated:
  "(deleteBookmarks api (JArr xs) w = (Returned rs, w') \<longrightarrow>
      issued (new_calls w w') = map (\<lambda>r. Remove (dr_id r)) rs \<and>
      map js_String xs = map (\<lambda>r. Inr (dr_id r)) rs \<and>
      (\<forall>i<length xs. \<forall>msg. outcomes (new_calls w w') ! i = Some msg \<longrightarrow>
         rs ! i = \<lparr>dr_id = dr_id (rs ! i), dr_success = False, dr_error = Some msg\<rparr>)) \<and>
   (findBookmarksByUrl api (JArr us) w = (Returned fs, w'') \<longrightarrow>
      issued (new_calls w w'') = map Search us \<and>
      length (outcomes (new_calls w w'')) = length us \<and>
      (\<forall>i<length us. \<forall>msg. outcomes (new_calls w w'') ! i = Some msg \<longrightarrow>
         fs ! i = \<lparr>fr_url = us ! i, fr_bookmarks = [], fr_error = Some msg\<rparr>)) \<and>
   (\<forall>msg v. deleteBookmarks api (JArr xs) w = (Threw msg, v) \<longrightarrow> (\<exists>x\<in>set xs. js_String x = Inl msg)) \<and>
   (\<forall>msg v. findBookmarksByUrl api (JArr us) w \<noteq> (Threw msg, v)) \<and>
   (responsive api \<and> (\<forall>x\<in>set xs. stringifiable x) \<longrightarrow>
      (\<exists>rs w'. deleteBookmarks api (JArr xs) w = (Returned rs, w'))) \<and>
   (responsive api \<longrightarrow> (\<exists>fs w'. findBookmarksByUrl api (JArr us) w = (Returned fs, w')))"
proof -
  have "findBookmarksByUrl api (JArr us) w \<noteq> (Threw msg, v)" for msg v
    by (simp add: findBookmarksByUrl_def findBookmarksByUrl_loop_not_Threw)
  with deleteBookmarks_fault_entry [of api xs w rs w'] findBookmarksByUrl_fault_entry [of api us w fs w'']
    deleteBookmarks_Returned_if [of api xs w] findBookmarksByUrl_Returned_if [of api us w]
    deleteBookmarks_Threw_item [of api xs w]
  show ?thesis by blast
qed

theorem fault_is_isolated_witness:
  "responsive example_api \<and> stringifiable (example_ids ! 0) \<and>
   stringifiable (example_ids ! 1) \<and> stringifiable (example_ids ! 2) \<and>
   deleteBookmarks example_api (JArr example_ids) example_world = (Returned example_del_results, example_del_world) \<and>
   outcomes (new_calls example_world example_del_world) ! 1 = Some ''not found'' \<and>
   example_del_results ! 1 = \<lparr>dr_id = ''9'', dr_success = False, dr_error = Some ''not found''\<rparr> \<and>
   js_String (example_ids ! 1) = Inr ''9'' \<and>
   issued (new_calls example_world example_del_world) = [Remove ''5'', Remove ''9'', Remove ''5''] \<and>
   findBookmarksByUrl example_api (JArr example_urls) example_world = (Returned example_find_results, example_find_world) \<and>
   outcomes (new_calls example_world example_find_world) ! 0 = Some ''bad url'' \<and>
   example_find_results ! 0 = \<lparr>fr_url = example_urls ! 0, fr_bookmarks = [], fr_error = Some ''bad url''\<rparr> \<and>
   issued (new_calls example_world example_find_world) = [Search (JNum ''3''), Search (JStr ''http://b'')]"
proof -
  note d = example_delete_run and f = example_find_run
  have o1: "outcomes (new_calls example_world example_del_world) ! 1 = Some ''not found''"
    and o2: "outcomes (new_calls example_world example_find_world) ! 0 = Some ''bad url''"
    by (simp_all add: example_delete_new_calls example_find_new_calls example_del_calls_def example_find_calls_def)
  have l: "(1::nat) < length example_ids" "(0::nat) < length example_urls"
    by (simp_all add: example_ids_def example_urls_def)
  have m: "map (\<lambda>r. Remove (dr_id r)) example_del_results = [Remove ''5'', Remove ''9'', Remove ''5'']"
    "map Search example_urls = [Search (JNum ''3''), Search (JStr ''http://b'')]"
    "dr_id (example_del_results ! 1) = ''9''" "js_String (example_ids ! 1) = Inr ''9''"
    by (simp_all add: example_ids_def example_urls_def example_del_results_def)
  from fault_is_isolated [of example_api example_ids example_world example_del_results example_del_world
      example_urls example_find_results example_find_world] d f
  have a: "issued (new_calls example_world example_del_world) = map (\<lambda>r. Remove (dr_id r)) example_del_results"
    and b: "\<forall>i<length example_ids. \<forall>msg. outcomes (new_calls example_world example_del_world) ! i = Some msg \<longrightarrow>
           example_del_results ! i = \<lparr>dr_id = dr_id (example_del_results ! i), dr_success = False, dr_error = Some msg\<rparr>"
    and c: "issued (new_calls example_world example_find_world) = map Search example_urls"
    and e: "\<forall>i<length example_urls. \<forall>msg. outcomes (new_calls example_world example_find_world) ! i = Some msg \<longrightarrow>
           example_find_results ! i = \<lparr>fr_url = example_urls ! i, fr_bookmarks = [], fr_error = Some msg\<rparr>"
    by simp_all
  from b l(1) o1 have "example_del_results ! 1 =
      \<lparr>dr_id = dr_id (example_del_results ! 1), dr_success = False, dr_error = Some ''not found''\<rparr>"
    by blast
  with m(3) have e1: "example_del_results ! 1 = \<lparr>dr_id = ''9'', dr_success = False, dr_error = Some ''not found''\<rparr>"
    by simp
  from e l(2) o2 have e2: "example_find_results ! 0 =
      \<lparr>fr_url = example_urls ! 0, fr_bookmarks = [], fr_error = Some ''bad url''\<rparr>"
    by blast
  from a c m(1,2,4) e1 e2 o1 o2 responsive_example_api example_ids_items d f
  show ?thesis by simp
qed

section \<open>The router\<close>

lemma deleteBookmarks_Threw_cases:
  assumes "fst (deleteBookmarks api payload w) = Threw msg"
  shows "(js_iterate payload = None \<and> msg = not_iterable_message ''bookmarkIds'') \<or>
         (\<exists>items. js_iterate payload = Some items \<and> (\<exists>x\<in>set items. js_String x = Inl msg))"
proof (cases "js_iterate payload")
  case None
  with assms show ?thesis by (simp add: deleteBookmarks_def)
next
  case (Some items)
  with assms have "deleteBookmarks_loop api items [] w = (Threw msg, snd (deleteBookmarks_loop api items [] w))"
    by (cases "deleteBookmarks_loop api items [] w") (simp add: deleteBookmarks_def)
  from deleteBookmarks_loop_Threw [OF this] Some show ?thesis by simp
qed

lemma deleteBookmarks_Threw_if:
  assumes "responsive api" and "\<exists>x\<in>set xs. \<not> stringifiable x"
  shows "\<exists>msg. fst (deleteBookmarks api (JArr xs) w) = Threw msg"
  using deleteBookmarks_loop_responsive_Threw [OF assms, of "[]" w]
  by (auto simp: deleteBookmarks_def)

lemma deleteBookmarks_not_iterable:
  "js_iterate payload = None \<Longrightarrow>
     deleteBookmarks api payload w = (Threw (not_iterable_message ''bookmarkIds''), w)"
  by (simp add: deleteBookmarks_def)

lemma onMessageExternal_delete:
  assumes "get_prop request ''action'' = Inr (JStr ''deleteBookmarks'')"
    and "get_prop request ''bookmarkIds'' = Inr payload"
  shows "onMessageExternal api request w =
     (\<lparr>sent = respond DeleteResults (fst (deleteBookmarks api payload w)), returned = ReturnedTrue\<rparr>,
      snd (deleteBookmarks api payload w))"
  using assms by (simp add: onMessageExternal_def split: prod.splits)

lemma port_onMessage_delete:
  assumes "get_prop message ''action'' = Inr (JStr ''deleteBookmarks'')"
    and "get_prop message ''bookmarkIds'' = Inr payload"
  shows "port_onMessage api message w =
     (respond DeleteResults (fst (deleteBookmarks api payload w)), snd (deleteBookmarks api payload w))"
  using assms by (simp add: port_onMessage_def split: prod.splits)

lemma respond_failure_iff:
  "respond wrap r = [failure_response msg] \<longleftrightarrow> r = Threw msg"
  by (cases r) (auto simp: respond_def success_response_def failure_response_def)

text \<open>
  C3. For a \<open>deleteBookmarks\<close> request, on either transport, the envelope sent is the
  failure envelope with a message exactly when the batch handler itself throws that
  message. The handler throws only on a malformed payload: one that is not iterable, or
  a list with an item that \<open>String\<close> cannot convert; it does throw on every payload
  that is not iterable and, when the store's calls settle, on every list with such an
  item. For a well-formed list, one whose items \<open>String\<close> can convert, as every
  number and every string, the envelope is never the failure envelope: when the batch
  returns, the envelope is \<open>success = True\<close> with one result per item, whatever the
  store answered for the items, and the batch returns if every store call settles.
\<close>

theorem envelope_fails_only_when_handler_throws:
  assumes "get_prop request ''action'' = Inr (JStr ''deleteBookmarks'')"
    and "get_prop request ''bookmarkIds'' = Inr payload"
  shows "(sent (fst (onMessageExternal api request w)) = [failure_response msg] \<longleftrightarrow>
            fst (deleteBookmarks api payload w) = Threw msg) \<and>
         (fst (port_onMessage api request w) = [failure_response msg] \<longleftrightarrow>
            fst (deleteBookmarks api payload w) = Threw msg) \<and>
         (fst (deleteBookmarks api payload w) = Threw msg \<longrightarrow>
            (js_iterate payload = None \<and> msg = not_iterable_message ''bookmarkIds'') \<or>
            (\<exists>items. js_iterate payload = Some items \<and> (\<exists>x\<in>set items. js_String x = Inl msg))) \<and>
         (js_iterate payload = None \<longrightarrow>
            fst (deleteBookmarks api payload w) = Threw (not_iterable_message ''bookmarkIds'')) \<and>
         (payload = JArr xs \<and> (\<exists>x\<in>set xs. \<not> stringifiable x) \<and> responsive api \<longrightarrow>
            (\<exists>m. fst (deleteBookmarks api payload w) = Threw m)) \<and>
         (payload = JArr xs \<and> (\<forall>x\<in>set xs. stringifiable x) \<longrightarrow>
            sent (fst (onMessageExternal api request w)) \<noteq> [failure_response msg] \<and>
            fst (port_onMessage api request w) \<noteq> [failure_response msg] \<and>
            (fst (deleteBookmarks api payload w) = Returned rs \<longrightarrow>
               sent (fst (onMessageExternal api request w)) = [success_response (DeleteResults rs)] \<and>
               fst (port_onMessage api request w) = [success_response (DeleteResults rs)] \<and>
               length rs = length xs) \<and>
            (responsive api \<longrightarrow> (\<exists>rs. fst (deleteBookmarks api payload w) = Returned rs)))"
proof -
  note one = onMessageExternal_delete [OF assms, of api w]
  note port = port_onMessage_delete [OF assms, of api w]
  have a: "sent (fst (onMessageExternal api request w)) = [failure_response msg] \<longleftrightarrow>
            fst (deleteBookmarks api payload w) = Threw msg"
    by (simp add: one respond_failure_iff)
  have b: "fst (port_onMessage api request w) = [failure_response msg] \<longleftrightarrow>
            fst (deleteBookmarks api payload w) = Threw msg"
    by (simp add: port respond_failure_iff)
  have c: "(js_iterate payload = None \<and> msg = not_iterable_message ''bookmarkIds'') \<or>
            (\<exists>items. js_iterate payload = Some items \<and> (\<exists>x\<in>set items. js_String x = Inl msg))"
    if "fst (deleteBookmarks api payload w) = Threw msg"
    using that by (rule deleteBookmarks_Threw_cases)
  have d: "fst (deleteBookmarks api payload w) = Threw (not_iterable_message ''bookmarkIds'')"
    if "js_iterate payload = None"
    using that by (simp add: deleteBookmarks_not_iterable)
  have e: "\<exists>m. fst (deleteBookmarks api payload w) = Threw m"
    if "payload = JArr xs" "\<exists>x\<in>set xs. \<not> stringifiable x" "responsive api"
    using that deleteBookmarks_Threw_if [of api xs w] by simp
  have f: "fst (deleteBookmarks api payload w) \<noteq> Threw msg"
    if "payload = JArr xs" "\<forall>x\<in>set xs. stringifiable x"
  proof
    assume "fst (deleteBookmarks api payload w) = Threw msg"
    from c [OF this] that(1) have "\<exists>x\<in>set xs. js_String x = Inl msg" by simp
    with that(2) show False by (auto simp: stringifiable_iff)
  qed
  have g: "sent (fst (onMessageExternal api request w)) = [success_response (DeleteResults rs)] \<and>
           fst (port_onMessage api request w) = [success_response (DeleteResults rs)] \<and>
           length rs = length xs"
    if "payload = JArr xs" "fst (deleteBookmarks api payload w) = Returned rs"
  proof -
    from that have "deleteBookmarks api (JArr xs) w = (Returned rs, snd (deleteBookmarks api (JArr xs) w))"
      by (cases "deleteBookmarks api (JArr xs) w") simp
    from deleteBookmarks_ids [OF this] have "length rs = length xs" by simp
    with that(2) show ?thesis by (simp add: one port respond_def)
  qed
  have h: "\<exists>rs. fst (deleteBookmarks api payload w) = Returned rs"
    if "payload = JArr xs" "\<forall>x\<in>set xs. stringifiable x" "responsive api"
    using that deleteBookmarks_Returned_if [of api xs w] by auto
  from a b c d e f g h show ?thesis by blast
qed

lemma get_prop_example_delete_request:
  "get_prop example_delete_request ''action'' = Inr (JStr ''deleteBookmarks'')"
  "get_prop example_delete_request ''bookmarkIds'' = Inr (JArr example_ids)"
  by (simp_all add: example_delete_request_def)

lemma get_prop_request_5_object_7:
  "get_prop request_5_object_7 ''action'' = Inr (JStr ''deleteBookmarks'')"
  "get_prop request_5_object_7 ''bookmarkIds'' = Inr (JArr ids_5_object_7)"
  by (simp_all add: request_5_object_7_def)

theorem envelope_fails_only_when_handler_throws_witness:
  "get_prop example_delete_request ''action'' = Inr (JStr ''deleteBookmarks'') \<and>
   get_prop example_delete_request ''bookmarkIds'' = Inr (JArr example_ids) \<and>
   responsive example_api \<and> stringifiable (example_ids ! 0) \<and>
   stringifiable (example_ids ! 1) \<and> stringifiable (example_ids ! 2) \<and>
   fst (deleteBookmarks example_api (JArr example_ids) example_world) = Returned example_del_results \<and>
   sent (fst (onMessageExternal example_api example_delete_request example_world))
     = [success_response (DeleteResults example_del_results)] \<and>
   fst (port_onMessage example_api example_delete_request example_world)
     = [success_response (DeleteResults example_del_results)] \<and>
   length example_del_results = length example_ids \<and>
   \<not> dr_success (example_del_results ! 1) \<and>
   get_prop request_5_object_7 ''action'' = Inr (JStr ''deleteBookmarks'') \<and>
   get_prop request_5_object_7 ''bookmarkIds'' = Inr (JArr ids_5_object_7) \<and>
   fst (deleteBookmarks example_api (JArr ids_5_object_7) example_world) = Threw cannot_convert_message \<and>
   sent (fst (onMessageExternal example_api request_5_object_7 example_world))
     = [failure_response cannot_convert_message] \<and>
   fst (port_onMessage example_api request_5_object_7 example_world)
     = [failure_response cannot_convert_message]"
proof -
  from envelope_fails_only_when_handler_throws [OF get_prop_example_delete_request,
      where xs = example_ids and api = example_api and w = example_world
        and msg = cannot_convert_message and rs = example_del_results]
    example_ids_stringifiable example_delete_run
  have good: "sent (fst (onMessageExternal example_api example_delete_request example_world))
       = [success_response (DeleteResults example_del_results)]"
    "fst (port_onMessage example_api example_delete_request example_world)
       = [success_response (DeleteResults example_del_results)]"
    "length example_del_results = length example_ids"
    by simp_all
  from envelope_fails_only_when_handler_throws [OF get_prop_request_5_object_7,
      where xs = ids_5_object_7 and api = example_api and w = example_world
        and msg = cannot_convert_message and rs = example_del_results]
    run_5_object_7
  have bad: "sent (fst (onMessageExternal example_api request_5_object_7 example_world))
       = [failure_response cannot_convert_message]"
    "fst (port_onMessage example_api request_5_object_7 example_world)
       = [failure_response cannot_convert_message]"
    by simp_all
  from good bad get_prop_example_delete_request get_prop_request_5_object_7 responsive_example_api
    example_ids_items example_delete_run run_5_object_7
  show ?thesis by (simp add: example_del_results_def)
qed

text \<open>
  C10. A \<open>deleteBookmarks\<close> request on the one-shot channel whose \<open>bookmarkIds\<close> is
  absent (read as \<open>undefined\<close>) or not iterable gets exactly one response, the failure
  envelope with the TypeError's message, and leaves the world as it was: no store call
  is logged and the store is unchanged.
\<close>

theorem structural_fault_one_failure_no_store_call:
  assumes "get_prop request ''action'' = Inr (JStr ''deleteBookmarks'')"
    and "get_prop request ''bookmarkIds'' = Inr payload"
    and "payload = JUndefined \<or> js_iterate payload = None"
  shows "onMessageExternal api request w =
           (\<lparr>sent = [failure_response (not_iterable_message ''bookmarkIds'')], returned = ReturnedTrue\<rparr>, w)"
proof -
  from assms(3) have "js_iterate payload = None" by auto
  then show ?thesis
    by (simp add: onMessageExternal_delete [OF assms(1,2)] deleteBookmarks_not_iterable respond_def)
qed

theorem structural_fault_one_failure_no_store_call_witness:
  "get_prop example_no_ids_request ''action'' = Inr (JStr ''deleteBookmarks'') \<and>
   get_prop example_no_ids_request ''bookmarkIds'' = Inr JUndefined \<and>
   onMessageExternal example_api example_no_ids_request example_world =
     (\<lparr>sent = [failure_response ''bookmarkIds is not iterable''], returned = ReturnedTrue\<rparr>, example_world)"
proof -
  have a: "get_prop example_no_ids_request ''action'' = Inr (JStr ''deleteBookmarks'')"
    and b: "get_prop example_no_ids_request ''bookmarkIds'' = Inr JUndefined"
    by (simp_all add: example_no_ids_request_def)
  from structural_fault_one_failure_no_store_call [OF a b, of example_api example_world] a b
  show ?thesis by (simp add: not_iterable_message_def)
qed

text \<open>
  C5. A request whose action tag is none of \<open>ping\<close>, \<open>deleteBookmarks\<close> and
  \<open>findBookmarksByUrl\<close> (or whose tag cannot be read at all) gets no response on
  the one-shot channel and none on a port, and the world is unchanged: no store call.
\<close>

theorem unknown_action_dropped:
  assumes "get_prop request ''action'' \<notin>
             {Inr (JStr ''ping''), Inr (JStr ''deleteBookmarks''), Inr (JStr ''findBookmarksByUrl'')}"
  shows "sent (fst (onMessageExternal api request w)) = [] \<and>
         snd (onMessageExternal api request w) = w \<and>
         port_onMessage api request w = ([], w)"
  using assms by (cases "get_prop request ''action''") (simp_all add: onMessageExternal_def port_onMessage_def)

theorem unknown_action_dropped_witness:
  "get_prop example_unknown_request ''action'' \<notin>
      {Inr (JStr ''ping''), Inr (JStr ''deleteBookmarks''), Inr (JStr ''findBookmarksByUrl'')} \<and>
   sent (fst (onMessageExternal example_api example_unknown_request example_world)) = [] \<and>
   snd (onMessageExternal example_api example_unknown_request example_world) = example_world \<and>
   port_onMessage example_api example_unknown_request example_world = ([], example_world)"
proof -
  have a: "get_prop example_unknown_request ''action'' \<notin>
      {Inr (JStr ''ping''), Inr (JStr ''deleteBookmarks''), Inr (JStr ''findBookmarksByUrl'')}"
    by (simp add: example_unknown_request_def)
  from unknown_action_dropped [OF a, of example_api example_world] a show ?thesis by simp
qed

text \<open>
  On a port a \<open>deleteBookmarks\<close> message is answered as on the one-shot channel.
\<close>

lemma get_prop_second:
  "get_prop v a = Inr x \<Longrightarrow> \<exists>p. get_prop v b = Inr p"
  by (cases v) (auto split: option.splits)

lemma port_same_as_one_shot_for_delete:
  assumes "get_prop message ''action'' = Inr (JStr ''deleteBookmarks'')"
  shows "port_onMessage api message w =
           (sent (fst (onMessageExternal api message w)), snd (onMessageExternal api message w))"
proof -
  from get_prop_second [OF assms] obtain payload where "get_prop message ''bookmarkIds'' = Inr payload"
    by blast
  then show ?thesis
    by (simp add: onMessageExternal_delete [OF assms] port_onMessage_delete [OF assms])
qed

text \<open>
  C4. The port listener does not answer as the one-shot listener does: a \<open>ping\<close>
  and a \<open>findBookmarksByUrl\<close> request are answered on the one-shot channel, while
  the same messages on a port get no response and reach no store call.
\<close>

theorem port_drops_ping_and_lookup:
  "sent (fst (onMessageExternal example_api example_ping_request example_world)) = [ping_response] \<and>
   port_onMessage example_api example_ping_request example_world = ([], example_world) \<and>
   sent (fst (onMessageExternal example_api example_find_request example_world))
     = [success_response (FindResults example_find_results)] \<and>
   port_onMessage example_api example_find_request example_world = ([], example_world)"
  using example_find_run
  by (simp add: onMessageExternal_def port_onMessage_def example_ping_request_def
      example_find_request_def respond_def)

section \<open>Lemmas about the delete run of the page\<close>

lemma addResult_frame [simp]:
  "input_value (addResult b m u) = input_value u"
  "input_disabled (addResult b m u) = input_disabled u"
  "loadFileBtn_disabled (addResult b m u) = loadFileBtn_disabled u"
  "pasteBtn_disabled (addResult b m u) = pasteBtn_disabled u"
  "clearBtn_disabled (addResult b m u) = clearBtn_disabled u"
  "deleteBtn_disabled (addResult b m u) = deleteBtn_disabled u"
  "results_log (addResult b m u) = results_log u @ [(b, m)]"
  by (simp_all add: addResult_def)

lemma run_loop_Cons:
  assumes "await_remove api bid w = (out, w1)"
  shows "run_loop api (bid # ids) i n sc ec u w =
     (case out of
        Fulfilled x \<Rightarrow>
          run_loop api ids (i + 1) n (sc + 1) ec
            (addResult True (''Deleted bookmark ID: '' @ bid)
               (u\<lparr>progress_text := ''Deleting '' @ nat_to_string (i + 1) @ '' of '' @ nat_to_string n @ ''...''\<rparr>)) w1
      | Rejected msg \<Rightarrow>
          run_loop api ids (i + 1) n sc (ec + 1)
            (addResult False (''Failed ID '' @ bid @ '': '' @ msg)
               (u\<lparr>progress_text := ''Deleting '' @ nat_to_string (i + 1) @ '' of '' @ nat_to_string n @ ''...''\<rparr>)) w1
      | Never \<Rightarrow>
          (Stalled, u\<lparr>progress_text := ''Deleting '' @ nat_to_string (i + 1) @ '' of '' @ nat_to_string n @ ''...''\<rparr>, w1))"
  using assms by (simp add: Let_def split: settled.splits)

lemma run_loop_frame:
  "run_loop api ids i n sc ec u w = (r, u', w') \<Longrightarrow>
     input_value u' = input_value u \<and> input_disabled u' = input_disabled u \<and>
     loadFileBtn_disabled u' = loadFileBtn_disabled u \<and> pasteBtn_disabled u' = pasteBtn_disabled u \<and>
     clearBtn_disabled u' = clearBtn_disabled u \<and> deleteBtn_disabled u' = deleteBtn_disabled u"
proof (induction ids arbitrary: i sc ec u w)
  case Nil
  then show ?case by simp
next
  case (Cons bid ids)
  obtain out w1 where aw: "await_remove api bid w = (out, w1)"
    by (cases "await_remove api bid w")
  note step = run_loop_Cons [OF aw, of ids i n sc ec u]
  show ?case
  proof (cases out)
    case (Fulfilled x)
    with Cons.prems step have
      "run_loop api ids (i + 1) n (sc + 1) ec
         (addResult True (''Deleted bookmark ID: '' @ bid)
            (u\<lparr>progress_text := ''Deleting '' @ nat_to_string (i + 1) @ '' of '' @ nat_to_string n @ ''...''\<rparr>)) w1
       = (r, u', w')" by simp
    from Cons.IH [OF this] show ?thesis by simp
  next
    case (Rejected msg)
    with Cons.prems step have
      "run_loop api ids (i + 1) n sc (ec + 1)
         (addResult False (''Failed ID '' @ bid @ '': '' @ msg)
            (u\<lparr>progress_text := ''Deleting '' @ nat_to_string (i + 1) @ '' of '' @ nat_to_string n @ ''...''\<rparr>)) w1
       = (r, u', w')" by simp
    from Cons.IH [OF this] show ?thesis by simp
  next
    case Never
    with Cons.prems step show ?thesis by auto
  qed
qed

lemma run_loop_Returned:
  "run_loop api ids i n sc ec u w = (Returned (sc', ec'), u', w') \<Longrightarrow>
   \<exists>outs. length outs = length ids \<and>
          calls w' = calls w @ settled_pairs (map Remove ids) outs \<and>
          sc' = sc + length (filter (\<lambda>out. out = None) outs) \<and>
          ec' = ec + length (filter (\<lambda>out. out \<noteq> None) outs) \<and>
          results_log u' = results_log u @ map2 result_line ids outs"
proof (induction ids arbitrary: i sc ec u w)
  case Nil
  then show ?case by simp
next
  case (Cons bid ids)
  obtain out w1 where aw: "await_remove api bid w = (out, w1)"
    by (cases "await_remove api bid w")
  note log = await_remove_calls [OF aw]
  note step = run_loop_Cons [OF aw, of ids i n sc ec u]
  show ?case
  proof (cases out)
    case (Fulfilled x)
    let ?u = "addResult True (''Deleted bookmark ID: '' @ bid)
            (u\<lparr>progress_text := ''Deleting '' @ nat_to_string (i + 1) @ '' of '' @ nat_to_string n @ ''...''\<rparr>)"
    from Fulfilled Cons.prems step have
      "run_loop api ids (i + 1) n (sc + 1) ec ?u w1 = (Returned (sc', ec'), u', w')" by simp
    from Cons.IH [OF this] obtain outs where o: "length outs = length ids"
      "calls w' = calls w1 @ settled_pairs (map Remove ids) outs"
      "sc' = sc + 1 + length (filter (\<lambda>out. out = None) outs)"
      "ec' = ec + length (filter (\<lambda>out. out \<noteq> None) outs)"
      "results_log u' = results_log ?u @ map2 result_line ids outs"
      by blast
    show ?thesis
      by (rule exI [of _ "None # outs"]) (use o log Fulfilled in \<open>simp add: settle_events_def result_line_def\<close>)
  next
    case (Rejected msg)
    let ?u = "addResult False (''Failed ID '' @ bid @ '': '' @ msg)
            (u\<lparr>progress_text := ''Deleting '' @ nat_to_string (i + 1) @ '' of '' @ nat_to_string n @ ''...''\<rparr>)"
    from Rejected Cons.prems step have
      "run_loop api ids (i + 1) n sc (ec + 1) ?u w1 = (Returned (sc', ec'), u', w')" by simp
    from Cons.IH [OF this] obtain outs where o: "length outs = length ids"
      "calls w' = calls w1 @ settled_pairs (map Remove ids) outs"
      "sc' = sc + length (filter (\<lambda>out. out = None) outs)"
      "ec' = ec + 1 + length (filter (\<lambda>out. out \<noteq> None) outs)"
      "results_log u' = results_log ?u @ map2 result_line ids outs"
      by blast
    show ?thesis
      by (rule exI [of _ "Some msg # outs"]) (use o log Rejected in \<open>simp add: settle_events_def result_line_def\<close>)
  next
    case Never
    with Cons.prems step show ?thesis by simp
  qed
qed

lemma run_loop_awaited:
  "run_loop api ids i n sc ec u w = (r, u', w') \<Longrightarrow> \<exists>tr. calls w' = calls w @ tr \<and> awaited tr"
proof (induction ids arbitrary: i sc ec u w)
  case Nil
  then show ?case by simp
next
  case (Cons bid ids)
  obtain out w1 where aw: "await_remove api bid w = (out, w1)"
    by (cases "await_remove api bid w")
  note log = await_remove_calls [OF aw]
  note step = run_loop_Cons [OF aw, of ids i n sc ec u]
  show ?case
  proof (cases out)
    case (Fulfilled x)
    with Cons.prems step obtain i' sc1 ec1 u1 where "run_loop api ids i' n sc1 ec1 u1 w1 = (r, u', w')" by simp
    from Cons.IH [OF this] obtain tr where "calls w' = calls w1 @ tr" "awaited tr" by blast
    with log Fulfilled show ?thesis by (simp add: settle_events_def)
  next
    case (Rejected msg)
    with Cons.prems step obtain i' sc1 ec1 u1 where "run_loop api ids i' n sc1 ec1 u1 w1 = (r, u', w')" by simp
    from Cons.IH [OF this] obtain tr where "calls w' = calls w1 @ tr" "awaited tr" by blast
    with log Rejected show ?thesis by (simp add: settle_events_def)
  next
    case Never
    with Cons.prems step log show ?thesis by (auto simp: settle_events_def)
  qed
qed

lemma run_loop_not_Threw:
  "run_loop api ids i n sc ec u w \<noteq> (Threw msg, u', w')"
proof (induction ids arbitrary: i sc ec u w)
  case Nil
  then show ?case by simp
next
  case (Cons bid ids)
  obtain out w1 where aw: "await_remove api bid w = (out, w1)"
    by (cases "await_remove api bid w")
  note step = run_loop_Cons [OF aw, of ids i n sc ec u]
  show ?case
  proof (cases out)
    case (Fulfilled x)
    with step obtain i' sc1 ec1 u1 where
      "run_loop api (bid # ids) i n sc ec u w = run_loop api ids i' n sc1 ec1 u1 w1" by simp
    with Cons.IH [of i' sc1 ec1 u1 w1] show ?thesis by simp
  next
    case (Rejected m)
    with step obtain i' sc1 ec1 u1 where
      "run_loop api (bid # ids) i n sc ec u w = run_loop api ids i' n sc1 ec1 u1 w1" by simp
    with Cons.IH [of i' sc1 ec1 u1 w1] show ?thesis by simp
  next
    case Never
    with step show ?thesis by simp
  qed
qed

lemma run_loop_responsive:
  "responsive api \<Longrightarrow> \<exists>cs u' w'. run_loop api ids i n sc ec u w = (Returned cs, u', w')"
proof (induction ids arbitrary: i sc ec u w)
  case Nil
  then show ?case by simp
next
  case (Cons bid ids)
  obtain out w1 where aw: "await_remove api bid w = (out, w1)"
    by (cases "await_remove api bid w")
  with await_remove_responsive [OF Cons.prems, of bid w] have nn: "out \<noteq> Never" by simp
  note step = run_loop_Cons [OF aw, of ids i n sc ec u]
  show ?case
  proof (cases out)
    case (Fulfilled x)
    with step obtain i' sc1 ec1 u1 where
      "run_loop api (bid # ids) i n sc ec u w = run_loop api ids i' n sc1 ec1 u1 w1" by simp
    with Cons.IH [OF Cons.prems, of i' sc1 ec1 u1 w1] show ?thesis by simp
  next
    case (Rejected m)
    with step obtain i' sc1 ec1 u1 where
      "run_loop api (bid # ids) i n sc ec u w = run_loop api ids i' n sc1 ec1 u1 w1" by simp
    with Cons.IH [OF Cons.prems, of i' sc1 ec1 u1 w1] show ?thesis by simp
  next
    case Never
    with nn show ?thesis by simp
  qed
qed

lemma getIds_empty: "input_value u = [] \<Longrightarrow> getIds u = []"
  by (simp add: getIds_def trim_def)

lemma start_run_fields:
  "all_disabled (start_run u)" "input_value (start_run u) = input_value u" "results_log (start_run u) = []"
  by (simp_all add: start_run_def all_disabled_def)

lemma finish_run_fields:
  "input_value (finish_run sc ec u) = (if ec = 0 then [] else input_value u)"
  "\<not> loadFileBtn_disabled (finish_run sc ec u)"
  "\<not> pasteBtn_disabled (finish_run sc ec u)"
  "\<not> clearBtn_disabled (finish_run sc ec u)"
  "\<not> input_disabled (finish_run sc ec u)"
  "deleteBtn_disabled (finish_run sc ec u) \<longleftrightarrow> ec = 0"
  "take (length (results_log u)) (results_log (finish_run sc ec u)) = results_log u"
  by (simp_all add: finish_run_def updateCount_def Let_def getIds_empty addResult_def)

lemma deleteBtn_click_started:
  assumes "getIds u \<noteq> []" and "confirm (confirm_message (length (getIds u)))"
  shows "deleteBtn_click api confirm u w =
     (case run_loop api (getIds u) 0 (length (getIds u)) 0 0 (start_run u) w of
        (Returned (successCount, errorCount), u', w') \<Rightarrow> (Returned (), finish_run successCount errorCount u', w')
      | (Threw msg, u', w') \<Rightarrow> (Threw msg, u', w')
      | (Stalled, u', w') \<Rightarrow> (Stalled, u', w'))"
  using assms by (simp add: deleteBtn_click_def Let_def)

lemma deleteBtn_click_Returned:
  assumes "getIds u \<noteq> []" and "confirm (confirm_message (length (getIds u)))"
    and "deleteBtn_click api confirm u w = (Returned (), u', w')"
  shows "\<exists>sc ec u1. run_loop api (getIds u) 0 (length (getIds u)) 0 0 (start_run u) w = (Returned (sc, ec), u1, w') \<and>
           u' = finish_run sc ec u1"
proof -
  obtain r u1 w1 where run: "run_loop api (getIds u) 0 (length (getIds u)) 0 0 (start_run u) w = (r, u1, w1)"
    by (cases "run_loop api (getIds u) 0 (length (getIds u)) 0 0 (start_run u) w")
  with assms(3) show ?thesis
    unfolding deleteBtn_click_started [where confirm = confirm and u = u, OF assms(1,2)]
    by (cases r) auto
qed

lemma deleteBtn_click_Stalled:
  assumes "getIds u \<noteq> []" and "confirm (confirm_message (length (getIds u)))"
    and "deleteBtn_click api confirm u w = (Stalled, u', w')"
  shows "run_loop api (getIds u) 0 (length (getIds u)) 0 0 (start_run u) w = (Stalled, u', w')"
proof -
  obtain r u1 w1 where run: "run_loop api (getIds u) 0 (length (getIds u)) 0 0 (start_run u) w = (r, u1, w1)"
    by (cases "run_loop api (getIds u) 0 (length (getIds u)) 0 0 (start_run u) w")
  with assms(3) show ?thesis
    unfolding deleteBtn_click_started [where confirm = confirm and u = u, OF assms(1,2)]
    by (cases r) auto
qed

text \<open>What a finished run of the page leaves behind, in terms of how the calls ended.\<close>

lemma deleteBtn_click_finished:
  assumes ids: "getIds u \<noteq> []" and conf: "confirm (confirm_message (length (getIds u)))"
    and click: "deleteBtn_click api confirm u w = (Returned (), u', w')"
  shows "\<exists>outs. length outs = length (getIds u) \<and>
           new_calls w w' = settled_pairs (map Remove (getIds u)) outs \<and>
           input_value u' = (if \<forall>out\<in>set outs. out = None then [] else input_value u) \<and>
           \<not> loadFileBtn_disabled u' \<and> \<not> pasteBtn_disabled u' \<and> \<not> clearBtn_disabled u' \<and>
           \<not> input_disabled u' \<and>
           (deleteBtn_disabled u' \<longleftrightarrow> (\<forall>out\<in>set outs. out = None)) \<and>
           take (length (getIds u)) (results_log u') = map2 result_line (getIds u) outs"
proof -
  from deleteBtn_click_Returned [OF ids conf click] obtain sc ec u1 where
    run: "run_loop api (getIds u) 0 (length (getIds u)) 0 0 (start_run u) w = (Returned (sc, ec), u1, w')"
    and fin: "u' = finish_run sc ec u1"
    by blast
  from run_loop_Returned [OF run] obtain outs where o: "length outs = length (getIds u)"
    "calls w' = calls w @ settled_pairs (map Remove (getIds u)) outs"
    "ec = 0 + length (filter (\<lambda>out. out \<noteq> None) outs)"
    "results_log u1 = results_log (start_run u) @ map2 result_line (getIds u) outs"
    by blast
  from run_loop_frame [OF run] have inp: "input_value u1 = input_value u"
    by (simp add: start_run_fields)
  from o(3) have ec: "ec = 0 \<longleftrightarrow> (\<forall>out\<in>set outs. out = None)"
    by (auto simp: filter_empty_conv)
  from o(4) o(1) have log: "results_log u1 = map2 result_line (getIds u) outs"
    "length (results_log u1) = length (getIds u)"
    by (simp_all add: start_run_fields)
  from finish_run_fields(7) [of u1 sc ec] log fin
  have tk: "take (length (getIds u)) (results_log u') = map2 result_line (getIds u) outs" by simp
  show ?thesis
    by (rule exI [of _ outs])
      (use o(1) new_calls_append [OF o(2)] inp ec tk fin in \<open>auto simp: finish_run_fields(1-6)\<close>)
qed

lemma deleteBtn_click_awaited:
  "awaited (new_calls w (snd (snd (deleteBtn_click api confirm u w))))"
proof (cases "getIds u \<noteq> [] \<and> confirm (confirm_message (length (getIds u)))")
  case False
  then show ?thesis by (auto simp: deleteBtn_click_def Let_def new_calls_def)
next
  case True
  obtain r u1 w1 where run: "run_loop api (getIds u) 0 (length (getIds u)) 0 0 (start_run u) w = (r, u1, w1)"
    by (cases "run_loop api (getIds u) 0 (length (getIds u)) 0 0 (start_run u) w")
  from run_loop_awaited [OF run] obtain tr where tr: "calls w1 = calls w @ tr" "awaited tr" by blast
  from True run have "snd (snd (deleteBtn_click api confirm u w)) = w1"
    by (cases r) (auto simp: deleteBtn_click_started split: prod.splits)
  with tr show ?thesis by (simp add: new_calls_append)
qed

lemma deleteBtn_click_ends:
  assumes "responsive api"
  shows "fst (deleteBtn_click api confirm u w) = Returned ()"
proof (cases "getIds u \<noteq> [] \<and> confirm (confirm_message (length (getIds u)))")
  case False
  then show ?thesis by (auto simp: deleteBtn_click_def Let_def)
next
  case True
  from run_loop_responsive [OF assms, of "getIds u" 0 "length (getIds u)" 0 0 "start_run u" w]
  obtain cs u1 w1 where "run_loop api (getIds u) 0 (length (getIds u)) 0 0 (start_run u) w = (Returned cs, u1, w1)"
    by blast
  with True show ?thesis
    by (cases cs) (simp add: deleteBtn_click_started)
qed

lemma deleteBookmarks_awaited:
  "awaited (new_calls w (snd (deleteBookmarks api payload w)))"
proof (cases "js_iterate payload")
  case None
  then show ?thesis by (simp add: deleteBookmarks_def new_calls_def)
next
  case (Some items)
  obtain r w1 where run: "deleteBookmarks_loop api items [] w = (r, w1)"
    by (cases "deleteBookmarks_loop api items [] w")
  from deleteBookmarks_loop_awaited [OF run] obtain tr where "calls w1 = calls w @ tr" "awaited tr" by blast
  with Some run show ?thesis by (simp add: deleteBookmarks_def new_calls_append)
qed

section \<open>The example runs of the page\<close>

lemma ids_5_7: "getIds (ui_with_input input_5_7) = [''5'', ''7'']"
  by code_simp

lemma ids_5_8_5: "getIds (ui_with_input input_5_8_5) = [''5'', ''8'', ''5'']"
  by code_simp

lemma ids_5_hang: "getIds (ui_with_input input_5_hang) = [''5'', ''hang'']"
  by code_simp

lemma run_5_7_eval:
  "fst run_5_7 = Returned ()"
  "input_value (fst (snd run_5_7)) = []"
  "deleteBtn_disabled (fst (snd run_5_7))"
  "\<not> loadFileBtn_disabled (fst (snd run_5_7))"
  "calls (snd (snd run_5_7)) = [Issued (Remove ''5''), Settled (Remove ''5'') None,
                                  Issued (Remove ''7''), Settled (Remove ''7'') None]"
  by code_simp+

lemma run_5_8_5_eval:
  "fst run_5_8_5 = Returned ()"
  "input_value (fst (snd run_5_8_5)) = input_5_8_5"
  "all_enabled (fst (snd run_5_8_5))"
  "calls (snd (snd run_5_8_5)) = [Issued (Remove ''5''), Settled (Remove ''5'') None,
                                    Issued (Remove ''8''), Settled (Remove ''8'') (Some ''not found''),
                                    Issued (Remove ''5''), Settled (Remove ''5'') (Some ''not found'')]"
  "take 3 (results_log (fst (snd run_5_8_5))) =
     [(True, ''Deleted bookmark ID: 5''), (False, ''Failed ID 8: not found''), (False, ''Failed ID 5: not found'')]"
  by code_simp+

lemma run_5_hang_eval:
  "fst run_5_hang = Stalled"
  "all_disabled (fst (snd run_5_hang))"
  "calls (snd (snd run_5_hang)) = [Issued (Remove ''5''), Settled (Remove ''5'') None, Issued (Remove ''hang'')]"
  by code_simp+

lemma example_confirmed: "always_confirm m"
  by (simp add: always_confirm_def)

lemma run_5_7_click:
  "deleteBtn_click example_api always_confirm (ui_with_input input_5_7) example_world =
     (Returned (), fst (snd run_5_7), snd (snd run_5_7))"
  using run_5_7_eval(1) by (cases run_5_7) (simp add: run_5_7_def)

lemma run_5_8_5_click:
  "deleteBtn_click example_api always_confirm (ui_with_input input_5_8_5) example_world =
     (Returned (), fst (snd run_5_8_5), snd (snd run_5_8_5))"
  using run_5_8_5_eval(1) by (cases run_5_8_5) (simp add: run_5_8_5_def)

lemma run_5_hang_click:
  "deleteBtn_click stalling_api always_confirm (ui_with_input input_5_hang) example_world =
     (Stalled, fst (snd run_5_hang), snd (snd run_5_hang))"
  using run_5_hang_eval(1) by (cases run_5_hang) (simp add: run_5_hang_def)

section \<open>Sequential batches\<close>

text \<open>
  C6, as stated, fails for the router: on the batch \<open>[5, {toString: 1}, 7]\<close> the
  conversion of the second item throws out of the loop after the first call, so one
  remove call is issued for three input items.
\<close>

theorem one_call_per_item_in_sequence_counterexample:
  "length ids_5_object_7 = 3 \<and>
   fst (deleteBookmarks example_api (JArr ids_5_object_7) example_world) = Threw cannot_convert_message \<and>
   issued (new_calls example_world (snd (deleteBookmarks example_api (JArr ids_5_object_7) example_world)))
     = [Remove ''5'']"
  using run_5_object_7
  by (simp add: new_calls_def example_world_def ids_5_object_7_def)

text \<open>
  C6, amended. With a store whose calls settle, a router batch over a list whose items
  \<open>String\<close> can convert (as it can every number and every string) and a confirmed
  run of the page both run to their end. A batch that has run to its end, in the
  router and in the page alike, has made exactly one remove call per input item, in
  input order, for that item's stringified id, each call settled before the next one
  is issued; every item, duplicates included, has its own call and its own result
  entry, which records how that call ended. In every run, finished or not, no call is
  issued while an earlier one is unsettled.
\<close>

theorem one_call_per_item_in_sequence:
  "(responsive api \<and> (\<forall>x\<in>set xs. stringifiable x) \<longrightarrow>
      (\<exists>rs w'. deleteBookmarks api (JArr xs) w = (Returned rs, w'))) \<and>
   (deleteBookmarks api (JArr xs) w = (Returned rs, w') \<longrightarrow>
      map js_String xs = map (\<lambda>r. Inr (dr_id r)) rs \<and>
      sequential (map (\<lambda>r. Remove (dr_id r)) rs) (new_calls w w') \<and>
      length rs = length xs \<and> map dr_error rs = outcomes (new_calls w w')) \<and>
   (responsive api \<longrightarrow> fst (deleteBtn_click api confirm u w) = Returned ()) \<and>
   (getIds u \<noteq> [] \<and> confirm (confirm_message (length (getIds u))) \<and>
    deleteBtn_click api confirm u w = (Returned (), u', w'') \<longrightarrow>
      sequential (map Remove (getIds u)) (new_calls w w'') \<and>
      take (length (getIds u)) (results_log u') =
        map2 result_line (getIds u) (outcomes (new_calls w w''))) \<and>
   awaited (new_calls w (snd (deleteBookmarks api (JArr xs) w))) \<and>
   awaited (new_calls w (snd (snd (deleteBtn_click api confirm u w))))"
proof -
  have router: "map js_String xs = map (\<lambda>r. Inr (dr_id r)) rs \<and>
      sequential (map (\<lambda>r. Remove (dr_id r)) rs) (new_calls w w') \<and>
      length rs = length xs \<and> map dr_error rs = outcomes (new_calls w w')"
    if run: "deleteBookmarks api (JArr xs) w = (Returned rs, w')"
  proof -
    from deleteBookmarks_log [OF run] have
      all: "list_all2 (\<lambda>x r. js_String x = Inr (dr_id r) \<and> dr_success r = (dr_error r = None)) xs rs"
      and log: "new_calls w w' = settled_pairs (map (\<lambda>r. Remove (dr_id r)) rs) (map dr_error rs)"
      by simp_all
    from all have len: "length xs = length rs" by (rule list_all2_lengthD)
    from deleteBookmarks_fault_entry [OF run] have "map js_String xs = map (\<lambda>r. Inr (dr_id r)) rs"
      by simp
    with len log show ?thesis
      by (simp add: sequential_settled_pairs outcomes_settled_pairs)
  qed
  have page: "sequential (map Remove (getIds u)) (new_calls w w'') \<and>
      take (length (getIds u)) (results_log u') =
        map2 result_line (getIds u) (outcomes (new_calls w w''))"
    if "getIds u \<noteq> []" "confirm (confirm_message (length (getIds u)))"
      "deleteBtn_click api confirm u w = (Returned (), u', w'')"
  proof -
    from deleteBtn_click_finished [where confirm = confirm and u = u, OF that] obtain outs where
      o: "length outs = length (getIds u)"
        "new_calls w w'' = settled_pairs (map Remove (getIds u)) outs"
        "take (length (getIds u)) (results_log u') = map2 result_line (getIds u) outs"
      by blast
    then show ?thesis
      by (simp add: sequential_settled_pairs outcomes_settled_pairs)
  qed
  from router page deleteBookmarks_awaited [of w api "JArr xs"] deleteBtn_click_awaited [of w api confirm u]
    deleteBookmarks_Returned_if [of api xs w] deleteBtn_click_ends [of api confirm u w]
  show ?thesis by blast
qed

theorem one_call_per_item_in_sequence_witness:
  "responsive example_api \<and> stringifiable (example_ids ! 0) \<and>
   stringifiable (example_ids ! 1) \<and> stringifiable (example_ids ! 2) \<and>
   deleteBookmarks example_api (JArr example_ids) example_world = (Returned example_del_results, example_del_world) \<and>
   sequential [Remove ''5'', Remove ''9'', Remove ''5''] (new_calls example_world example_del_world) \<and>
   length example_del_results = length example_ids \<and>
   getIds (ui_with_input input_5_8_5) = [''5'', ''8'', ''5''] \<and>
   always_confirm (confirm_message (length (getIds (ui_with_input input_5_8_5)))) \<and>
   fst run_5_8_5 = Returned () \<and>
   sequential [Remove ''5'', Remove ''8'', Remove ''5''] (new_calls example_world (snd (snd run_5_8_5))) \<and>
   take 3 (results_log (fst (snd run_5_8_5))) =
     map2 result_line [''5'', ''8'', ''5''] (outcomes (new_calls example_world (snd (snd run_5_8_5))))"
proof -
  have m: "map (\<lambda>r. Remove (dr_id r)) example_del_results = [Remove ''5'', Remove ''9'', Remove ''5'']"
    by (simp add: example_del_results_def)
  from one_call_per_item_in_sequence [of example_api example_ids example_world example_del_results
      example_del_world always_confirm "ui_with_input input_5_8_5" "fst (snd run_5_8_5)" "snd (snd run_5_8_5)"]
    example_delete_run run_5_8_5_click example_confirmed ids_5_8_5 m
  have "sequential [Remove ''5'', Remove ''9'', Remove ''5''] (new_calls example_world example_del_world)"
    "length example_del_results = length example_ids"
    "sequential [Remove ''5'', Remove ''8'', Remove ''5''] (new_calls example_world (snd (snd run_5_8_5)))"
    "take 3 (results_log (fst (snd run_5_8_5))) =
       map2 result_line [''5'', ''8'', ''5''] (outcomes (new_calls example_world (snd (snd run_5_8_5))))"
    by (simp_all add: numeral_3_eq_3)
  with example_delete_run ids_5_8_5 example_confirmed run_5_8_5_eval(1) responsive_example_api
    example_ids_items
  show ?thesis by simp
qed

section \<open>Controls during and after a run of the page\<close>

text \<open>
  C7, as stated, fails: after a run in which every item succeeded the handler clears
  the input and \<open>updateCount\<close> disables the delete button, so not all five controls
  report enabled when the run has ended.
\<close>

theorem controls_after_full_success_counterexample:
  "getIds (ui_with_input input_5_7) \<noteq> [] \<and>
   always_confirm (confirm_message (length (getIds (ui_with_input input_5_7)))) \<and>
   fst (deleteBtn_click example_api always_confirm (ui_with_input input_5_7) example_world) = Returned () \<and>
   \<not> all_enabled (fst (snd (deleteBtn_click example_api always_confirm (ui_with_input input_5_7) example_world)))"
  using run_5_7_eval(1,3) ids_5_7 example_confirmed
  by (simp add: run_5_7_def all_enabled_def)

text \<open>
  C7, amended. When a run starts (at least one id, confirmation accepted) all five
  controls report disabled, and they still do wherever the run waits for a store call.
  When the run has ended, load, paste, clear and the text input report enabled; the
  delete button reports disabled exactly when every item succeeded, so after a partial
  failure all five controls report enabled.
\<close>

theorem controls_during_and_after_run:
  assumes "getIds u \<noteq> []" and "confirm (confirm_message (length (getIds u)))"
  shows "all_disabled (start_run u) \<and>
         (deleteBtn_click api confirm u w = (Stalled, u', w') \<longrightarrow> all_disabled u') \<and>
         (deleteBtn_click api confirm u w = (Returned (), u', w') \<longrightarrow>
            \<not> loadFileBtn_disabled u' \<and> \<not> pasteBtn_disabled u' \<and> \<not> clearBtn_disabled u' \<and>
            \<not> input_disabled u' \<and>
            (deleteBtn_disabled u' \<longleftrightarrow> (\<forall>out\<in>set (outcomes (new_calls w w')). out = None)) \<and>
            ((\<exists>msg. Some msg \<in> set (outcomes (new_calls w w'))) \<longrightarrow> all_enabled u'))"
proof -
  have stalled: "all_disabled u'" if "deleteBtn_click api confirm u w = (Stalled, u', w')"
  proof -
    from deleteBtn_click_Stalled [where confirm = confirm and u = u, OF assms that]
    have "run_loop api (getIds u) 0 (length (getIds u)) 0 0 (start_run u) w = (Stalled, u', w')" .
    from run_loop_frame [OF this] start_run_fields(1) [of u] show ?thesis
      by (simp add: all_disabled_def)
  qed
  have ended: "\<not> loadFileBtn_disabled u' \<and> \<not> pasteBtn_disabled u' \<and> \<not> clearBtn_disabled u' \<and>
            \<not> input_disabled u' \<and>
            (deleteBtn_disabled u' \<longleftrightarrow> (\<forall>out\<in>set (outcomes (new_calls w w')). out = None)) \<and>
            ((\<exists>msg. Some msg \<in> set (outcomes (new_calls w w'))) \<longrightarrow> all_enabled u')"
    if "deleteBtn_click api confirm u w = (Returned (), u', w')"
  proof -
    from deleteBtn_click_finished [where confirm = confirm and u = u, OF assms that] obtain outs where
      o: "length outs = length (getIds u)"
        "new_calls w w' = settled_pairs (map Remove (getIds u)) outs"
        "\<not> loadFileBtn_disabled u'" "\<not> pasteBtn_disabled u'" "\<not> clearBtn_disabled u'"
        "\<not> input_disabled u'"
        "deleteBtn_disabled u' \<longleftrightarrow> (\<forall>out\<in>set outs. out = None)"
      by blast
    from o(1,2) have "outcomes (new_calls w w') = outs" by (simp add: outcomes_settled_pairs)
    with o show ?thesis by (auto simp: all_enabled_def)
  qed
  from stalled ended start_run_fields(1) [of u] show ?thesis by blast
qed

theorem controls_during_and_after_run_witness:
  "getIds (ui_with_input input_5_7) \<noteq> [] \<and> getIds (ui_with_input input_5_8_5) \<noteq> [] \<and>
   getIds (ui_with_input input_5_hang) \<noteq> [] \<and> always_confirm (confirm_message 2) \<and>
   always_confirm (confirm_message 3) \<and>
   fst run_5_hang = Stalled \<and> all_disabled (fst (snd run_5_hang)) \<and>
   fst run_5_7 = Returned () \<and> deleteBtn_disabled (fst (snd run_5_7)) \<and>
   \<not> loadFileBtn_disabled (fst (snd run_5_7)) \<and>
   fst run_5_8_5 = Returned () \<and> all_enabled (fst (snd run_5_8_5))"
proof -
  have c: "always_confirm (confirm_message (length (getIds (ui_with_input s))))" for s
    by (rule example_confirmed)
  have n: "getIds (ui_with_input input_5_7) \<noteq> []" "getIds (ui_with_input input_5_8_5) \<noteq> []"
    "getIds (ui_with_input input_5_hang) \<noteq> []"
    by (simp_all add: ids_5_7 ids_5_8_5 ids_5_hang)
  have o7: "outcomes (new_calls example_world (snd (snd run_5_7))) = [None, None]"
    and o8: "outcomes (new_calls example_world (snd (snd run_5_8_5))) = [None, Some ''not found'', Some ''not found'']"
    by (simp_all add: new_calls_def example_world_def run_5_7_eval run_5_8_5_eval)
  from controls_during_and_after_run [where confirm = always_confirm, OF n(3) c,
      of stalling_api example_world "fst (snd run_5_hang)" "snd (snd run_5_hang)"] run_5_hang_click
  have a: "all_disabled (fst (snd run_5_hang))" by simp
  from controls_during_and_after_run [where confirm = always_confirm, OF n(1) c,
      of example_api example_world "fst (snd run_5_7)" "snd (snd run_5_7)"] run_5_7_click o7
  have b: "deleteBtn_disabled (fst (snd run_5_7))" "\<not> loadFileBtn_disabled (fst (snd run_5_7))" by simp_all
  from controls_during_and_after_run [where confirm = always_confirm, OF n(2) c,
      of example_api example_world "fst (snd run_5_8_5)" "snd (snd run_5_8_5)"] run_5_8_5_click o8
  have d: "all_enabled (fst (snd run_5_8_5))" by simp
  from a b d n example_confirmed run_5_hang_eval(1) run_5_7_eval(1) run_5_8_5_eval(1)
  show ?thesis by simp
qed

section \<open>The input field after a run of the page\<close>

text \<open>
  C8. When a run of the page has ended: if every call was fulfilled the input field is
  empty; if at least one call was rejected the input field holds exactly what it held
  when the run started.
\<close>

theorem input_cleared_only_on_full_success:
  assumes "getIds u \<noteq> []" and "confirm (confirm_message (length (getIds u)))"
    and "deleteBtn_click api confirm u w = (Returned (), u', w')"
  shows "((\<forall>out\<in>set (outcomes (new_calls w w')). out = None) \<longrightarrow> input_value u' = []) \<and>
         ((\<exists>msg. Some msg \<in> set (outcomes (new_calls w w'))) \<longrightarrow> input_value u' = input_value u)"
proof -
  from deleteBtn_click_finished [where confirm = confirm and u = u, OF assms] obtain outs where
    o: "length outs = length (getIds u)"
      "new_calls w w' = settled_pairs (map Remove (getIds u)) outs"
      "input_value u' = (if \<forall>out\<in>set outs. out = None then [] else input_value u)"
    by blast
  from o(1,2) have "outcomes (new_calls w w') = outs" by (simp add: outcomes_settled_pairs)
  with o(3) show ?thesis by auto
qed

theorem input_cleared_only_on_full_success_witness:
  "getIds (ui_with_input input_5_7) \<noteq> [] \<and> getIds (ui_with_input input_5_8_5) \<noteq> [] \<and>
   always_confirm (confirm_message 2) \<and> always_confirm (confirm_message 3) \<and>
   fst run_5_7 = Returned () \<and>
   outcomes (new_calls example_world (snd (snd run_5_7))) = [None, None] \<and>
   input_value (fst (snd run_5_7)) = [] \<and>
   fst run_5_8_5 = Returned () \<and>
   outcomes (new_calls example_world (snd (snd run_5_8_5))) = [None, Some ''not found'', Some ''not found''] \<and>
   input_value (fst (snd run_5_8_5)) = input_value (ui_with_input input_5_8_5)"
proof -
  have c: "always_confirm (confirm_message (length (getIds (ui_with_input s))))" for s
    by (rule example_confirmed)
  have n: "getIds (ui_with_input input_5_7) \<noteq> []" "getIds (ui_with_input input_5_8_5) \<noteq> []"
    by (simp_all add: ids_5_7 ids_5_8_5)
  have o7: "outcomes (new_calls example_world (snd (snd run_5_7))) = [None, None]"
    and o8: "outcomes (new_calls example_world (snd (snd run_5_8_5))) = [None, Some ''not found'', Some ''not found'']"
    by (simp_all add: new_calls_def example_world_def run_5_7_eval run_5_8_5_eval)
  from input_cleared_only_on_full_success [where confirm = always_confirm, OF n(1) c run_5_7_click] o7
  have a: "input_value (fst (snd run_5_7)) = []" by simp
  from input_cleared_only_on_full_success [where confirm = always_confirm, OF n(2) c run_5_8_5_click] o8
  have b: "input_value (fst (snd run_5_8_5)) = input_value (ui_with_input input_5_8_5)" by simp
  from a b n o7 o8 example_confirmed run_5_7_eval(1) run_5_8_5_eval(1) show ?thesis by simp
qed

section \<open>File import\<close>

lemma getIds_updateCount: "getIds (updateCount u) = getIds u"
  by (simp add: updateCount_def getIds_def Let_def)

lemma getIds_reader_onload_raw:
  "getIds (reader_onload result None u) = getIds (u\<lparr>input_value := result\<rparr>)"
  by (simp add: reader_onload_def getIds_updateCount)

lemma import_items_no_null:
  "JNull \<notin> set items \<Longrightarrow>
     import_items items =
       Inr (map (\<lambda>item. if typeof_object item then (case get_prop item ''id'' of Inr v \<Rightarrow> v | Inl m \<Rightarrow> JUndefined)
                         else item) items)"
proof (induction items)
  case Nil
  then show ?case by simp
next
  case (Cons item items)
  then have "item \<noteq> JNull" "JNull \<notin> set items" by auto
  with Cons.IH show ?case
    by (cases item) (simp_all split: option.splits)
qed

text \<open>
  For a file that parses as an array without a \<open>null\<close> element, whose picked values
  \<open>join\<close> can convert, the ids are the normalized lines of the elements: scalars as
  they are, objects by their \<open>id\<close>.
\<close>

lemma getIds_reader_onload_array:
  assumes "JNull \<notin> set items"
    and "array_join [newline]
          (map (\<lambda>item. if typeof_object item then (case get_prop item ''id'' of Inr v \<Rightarrow> v | Inl m \<Rightarrow> JUndefined)
                         else item) items) = Inr joined"
  shows "getIds (reader_onload result (Some (JArr items)) u) = getIds (u\<lparr>input_value := joined\<rparr>)"
  using assms(2) by (simp add: reader_onload_def getIds_updateCount import_items_no_null [OF assms(1)])

lemma import_examples:
  "getIds (reader_onload raw (Some (JArr [JStr ''a'', JStr ''b''])) blank_ui) = [''a'', ''b'']"
  "getIds (reader_onload raw (Some (JArr [JObj [(''id'', JStr ''x'')]])) blank_ui) = [''x'']"
  "getIds (reader_onload (''a'' @ [newline] @ ''#comment'' @ [newline, newline] @ ''b'') None blank_ui) = [''a'', ''b'']"
proof -
  have a: "array_join [newline] [JStr ''a'', JStr ''b''] = Inr (''a'' @ [newline] @ ''b'')"
    and x: "array_join [newline] [JStr ''x''] = Inr ''x''"
    by (simp_all add: array_join_def)
  show "getIds (reader_onload raw (Some (JArr [JStr ''a'', JStr ''b''])) blank_ui) = [''a'', ''b'']"
    using a by (simp add: getIds_reader_onload_array [where joined = "''a'' @ [newline] @ ''b''"]) code_simp
  show "getIds (reader_onload raw (Some (JArr [JObj [(''id'', JStr ''x'')]])) blank_ui) = [''x'']"
    using x by (simp add: getIds_reader_onload_array [where joined = "''x''"]) code_simp
  show "getIds (reader_onload (''a'' @ [newline] @ ''#comment'' @ [newline, newline] @ ''b'') None blank_ui) = [''a'', ''b'']"
    by code_simp
qed

text \<open>
  An element whose \<open>id\<close> cannot be converted makes \<open>join\<close> throw inside the \<open>try\<close>
  block, and the raw text is kept.
\<close>

lemma import_unconvertible_id_keeps_raw_text:
  "getIds (reader_onload ''raw'' (Some (JArr [JObj [(''id'', toString_object)]])) blank_ui) = [''raw'']"
  by code_simp

text \<open>
  C9. The import does not take a \<open>null\<close> element of a parsed array as it is: reading
  \<open>null.id\<close> throws inside the \<open>try\<close> block, the \<open>catch\<close> meant for text that is not
  JSON swallows the error, and the raw text of the file becomes the single id.
\<close>

theorem import_array_with_null_uses_raw_text:
  "getIds (reader_onload ''[null]'' (Some (JArr [JNull])) blank_ui) = [''[null]''] \<and>
   getIds (reader_onload ''[5,null]'' (Some (JArr [JNum ''5'', JNull])) blank_ui) = [''[5,null]''] \<and>
   getIds (reader_onload ''[5]'' (Some (JArr [JNum ''5''])) blank_ui) = [''5'']"
  by code_simp

end
